theory Spec2Isabelle
  imports Main "HOL-Library.AList"
begin

unbundle bit_operations_syntax

section \<open>Strings\<close>

text \<open>
  A Python \<open>str\<close> is a sequence of Unicode code points, so a string is modelled as the
  list of its code points (natural numbers; the code points of Python are those below
  \<open>0x110000\<close>). \<open>lit\<close> turns a literal of the source into that list.
\<close>

type_synonym pystr = "nat list"

definition lit :: "string \<Rightarrow> pystr" where
  "lit s = map of_char s"

text \<open>\<open>str(n)\<close> and \<open>'%d' % n\<close> for a non-negative integer: its decimal digits.\<close>

fun str :: "nat \<Rightarrow> pystr" where
  "str n = (if n < 10 then [48 + n] else str (n div 10) @ [48 + n mod 10])"

declare str.simps [simp del]

text \<open>
  \<open>s.replace(old, new)\<close> where \<open>old\<close> is a single character: every occurrence of the
  character is replaced by the string \<open>new\<close>.
\<close>

definition replace_char :: "nat \<Rightarrow> pystr \<Rightarrow> pystr \<Rightarrow> pystr" where
  "replace_char old new s = concat (map (\<lambda>c. if c = old then new else [c]) s)"

text \<open>
  \<open>s.split(sep)\<close> for a separator of one character: the pieces between the occurrences
  of the separator; the empty string gives one empty piece.
\<close>

fun split :: "nat \<Rightarrow> pystr \<Rightarrow> pystr list" where
  "split sep [] = [[]]"
| "split sep (c # cs) =
     (if c = sep then [] # split sep cs
      else (case split sep cs of
              [] \<Rightarrow> [[c]]
            | t # ts \<Rightarrow> (c # t) # ts))"

section \<open>\<open>json.dumps\<close> on a string\<close>

text \<open>
  \<open>json.dumps(name)\<close> for a \<open>str\<close> is \<open>encode_basestring_ascii\<close> of the standard library
  (the default encoder has \<open>ensure_ascii=True\<close>):
  \<^verbatim>\<open>
  ESCAPE_ASCII = re.compile(r'([\\"]|[^\ -~])')
  ESCAPE_DCT = {'\\': '\\\\', '"': '\\"', '\b': '\\b', '\f': '\\f',
                '\n': '\\n', '\r': '\\r', '\t': '\\t'}
  def replace(match):
      s = match.group(0)
      try:
          return ESCAPE_DCT[s]
      except KeyError:
          n = ord(s)
          if n < 0x10000:
              return '\\u{0:04x}'.format(n)
          else:
              n -= 0x10000
              s1 = 0xd800 | ((n >> 10) & 0x3ff)
              s2 = 0xdc00 | (n & 0x3ff)
              return '\\u{0:04x}\\u{1:04x}'.format(s1, s2)
  return '"' + ESCAPE_ASCII.sub(replace, s) + '"'
  \<close>
  \<open>hex04\<close> is \<open>'{0:04x}'.format(n)\<close> for \<open>n < 0x10000\<close>, which holds at each of its calls.
\<close>

definition hexdigit :: "nat \<Rightarrow> nat" where
  "hexdigit d = (if d < 10 then 48 + d else 87 + d)"

definition hex04 :: "nat \<Rightarrow> pystr" where
  "hex04 n = [hexdigit (n div 4096 mod 16), hexdigit (n div 256 mod 16),
              hexdigit (n div 16 mod 16), hexdigit (n mod 16)]"

definition replace :: "nat \<Rightarrow> pystr" where
  "replace n =
     (if n = 92 then [92, 92]
      else if n = 34 then [92, 34]
      else if n = 8 then [92, 98]
      else if n = 12 then [92, 102]
      else if n = 10 then [92, 110]
      else if n = 13 then [92, 114]
      else if n = 9 then [92, 116]
      else if n < 0x10000 then [92, 117] @ hex04 n
      else (let m = n - 0x10000;
                s1 = 0xd800 OR (drop_bit 10 m AND 0x3ff);
                s2 = 0xdc00 OR (m AND 0x3ff)
            in [92, 117] @ hex04 s1 @ [92, 117] @ hex04 s2))"

definition ESCAPE_ASCII :: "nat \<Rightarrow> bool" where
  "ESCAPE_ASCII c \<longleftrightarrow> c = 92 \<or> c = 34 \<or> c < 32 \<or> 126 < c"

definition encode_basestring_ascii :: "pystr \<Rightarrow> pystr" where
  "encode_basestring_ascii s =
     [34] @ concat (map (\<lambda>c. if ESCAPE_ASCII c then replace c else [c]) s) @ [34]"

definition json_dumps :: "pystr \<Rightarrow> pystr" where
  "json_dumps s = encode_basestring_ascii s"

section \<open>The objects of pydot\<close>

text \<open>
  pydot is a library outside this repository. A node has a name, by which pydot identifies
  it, a port and attributes (the keyword arguments, in their order). A graph records the
  nodes and edges in the order of the calls of \<open>add_node\<close> and \<open>add_edge\<close> (pydot numbers them
  with one sequence counter), so it is modelled by the list of these additions.
\<close>

record Node =
  get_name :: pystr
  get_port :: "pystr option"
  get_attributes :: "(pystr \<times> pystr) list"

text \<open>
  \<open>pydot.Node(name, **attrs)\<close> takes a compass point off the name:
  \<^verbatim>\<open>
  port = None
  if isinstance(name, str) and not name.startswith('"'):
      idx = name.find(':')
      if idx > 0:
          name, port = name[:idx], name[idx:]
  \<close>
  So a name that does not start with a double quote is cut at its first colon, unless the
  colon is its first character. The quotes that pydot puts around a name when it writes
  the graph are not part of the model.
\<close>

definition startswith_quote :: "pystr \<Rightarrow> bool" where
  "startswith_quote nm = (case nm of [] \<Rightarrow> False | c # _ \<Rightarrow> c = 34)"

definition pydot_Node :: "pystr \<Rightarrow> (pystr \<times> pystr) list \<Rightarrow> Node" where
  "pydot_Node nm attrs =
     (let idx = length (takeWhile (\<lambda>c. c \<noteq> 58) nm)
      in if startswith_quote nm then \<lparr>get_name = nm, get_port = None, get_attributes = attrs\<rparr>
         else if 0 < idx \<and> idx < length nm
         then \<lparr>get_name = take idx nm, get_port = Some (drop idx nm), get_attributes = attrs\<rparr>
         else \<lparr>get_name = nm, get_port = None, get_attributes = attrs\<rparr>)"

datatype item = AddNode Node | AddEdge Node Node

record Dot =
  graph_name :: "pystr option"
  rankdir :: pystr
  items :: "item list"

definition set_URL :: "pystr \<Rightarrow> Node \<Rightarrow> Node" where
  "set_URL url n = n\<lparr>get_attributes := AList.update (lit ''URL'') url (get_attributes n)\<rparr>"

definition add_node :: "Node \<Rightarrow> Dot \<Rightarrow> Dot" where
  "add_node n g = g\<lparr>items := items g @ [AddNode n]\<rparr>"

definition add_edge :: "Node \<Rightarrow> Node \<Rightarrow> Dot \<Rightarrow> Dot" where
  "add_edge src dst g = g\<lparr>items := items g @ [AddEdge src dst]\<rparr>"

section \<open>The operators of a model\<close>

record NodeProto =
  name :: pystr
  op_type :: pystr
  input :: "pystr list"
  output' :: "pystr list"
  doc_string :: pystr

record GraphProto =
  node :: "NodeProto list"
  gname :: pystr

section \<open>Styles and helpers\<close>

definition OP_STYLE :: "(pystr \<times> pystr) list" where
  "OP_STYLE = [(lit ''shape'', lit ''box''), (lit ''color'', lit ''#0F9D58''),
               (lit ''style'', lit ''filled''), (lit ''fontcolor'', lit ''#FFFFFF'')]"

definition OP_STYLE_1 :: "(pystr \<times> pystr) list" where
  "OP_STYLE_1 = [(lit ''shape'', lit ''box''), (lit ''color'', lit ''#930e9d''),
                 (lit ''style'', lit ''filled''), (lit ''fontcolor'', lit ''#FFFFFF'')]"

definition BLOB_STYLE :: "(pystr \<times> pystr) list" where
  "BLOB_STYLE = [(lit ''shape'', lit ''octagon'')]"

definition escape_label :: "pystr \<Rightarrow> pystr" where
  "escape_label nm = json_dumps nm"

definition form_and_sanitize_docstring :: "pystr \<Rightarrow> pystr" where
  "form_and_sanitize_docstring s =
     (let url = lit ''javascript:alert('';
          url = url @ replace_char 62 [] (replace_char 60 [] (replace_char 34 [39] (escape_label s)));
          url = url @ lit '')''
      in url)"

section \<open>The node producer\<close>

type_synonym producer = "NodeProto \<Rightarrow> nat \<Rightarrow> (pystr \<times> pystr) list \<Rightarrow> Node"

definition ReallyGetOpNode :: "bool \<Rightarrow> producer" where
  "ReallyGetOpNode embed_docstring op op_id kwargs =
     (let node_name =
            (if name op \<noteq> []
             then name op @ lit ''/'' @ op_type op @ lit '' (op#'' @ str op_id @ lit '')''
             else op_type op @ lit '' (op#'' @ str op_id @ lit '')'');
          node_name = foldl (\<lambda>acc (i, inp). acc @ ([10] @ lit '' input'') @ str i @ lit '' '' @ inp)
                        node_name (enumerate 0 (input op));
          node_name = foldl (\<lambda>acc (i, out). acc @ ([10] @ lit '' output'') @ str i @ lit '' '' @ out)
                        node_name (enumerate 0 (output' op));
          node = pydot_Node node_name kwargs
      in if embed_docstring
         then set_URL (form_and_sanitize_docstring (doc_string op)) node
         else node)"

definition GetOpNodeProducer :: "bool \<Rightarrow> producer" where
  "GetOpNodeProducer embed_docstring = ReallyGetOpNode embed_docstring"

section \<open>The graph builder\<close>

text \<open>
  The state of the loop of \<open>GetPydotGraph\<close>: the graph under construction, the dictionary
  \<open>pydot_nodes\<close> from a value name to its current node, and the \<open>defaultdict(int)\<close> of
  occurrence counters (a name never stored reads as 0).
\<close>

record builder =
  pydot_graph :: Dot
  pydot_nodes :: "pystr \<rightharpoonup> Node"
  pydot_node_counts :: "pystr \<Rightarrow> nat"

text \<open>
  The value node that lines 96 to 101 and lines 110 to 115 construct, for a name and the
  counter read at that moment.
\<close>

definition value_node :: "pystr \<Rightarrow> nat \<Rightarrow> Node" where
  "value_node nm c =
     pydot_Node (escape_label (nm @ str c)) ((lit ''label'', escape_label nm) # BLOB_STYLE)"

text \<open>The body of \<open>for input_name in op.input\<close>.\<close>

definition input_step :: "Node \<Rightarrow> builder \<Rightarrow> pystr \<Rightarrow> builder" where
  "input_step op_node st input_name =
     (case pydot_nodes st input_name of
        None \<Rightarrow>
          (let input_node = value_node input_name (pydot_node_counts st input_name);
               st = st\<lparr>pydot_nodes := (pydot_nodes st)(input_name \<mapsto> input_node)\<rparr>
           in st\<lparr>pydot_graph := add_edge input_node op_node (add_node input_node (pydot_graph st))\<rparr>)
      | Some input_node \<Rightarrow>
          st\<lparr>pydot_graph := add_edge input_node op_node (add_node input_node (pydot_graph st))\<rparr>)"

text \<open>The body of \<open>for output_name in op.output\<close>.\<close>

definition output_step :: "Node \<Rightarrow> builder \<Rightarrow> pystr \<Rightarrow> builder" where
  "output_step op_node st output_name =
     (let st = (if pydot_nodes st output_name \<noteq> None
                then st\<lparr>pydot_node_counts :=
                          (pydot_node_counts st)(output_name := pydot_node_counts st output_name + 1)\<rparr>
                else st);
          output_node = value_node output_name (pydot_node_counts st output_name);
          st = st\<lparr>pydot_nodes := (pydot_nodes st)(output_name \<mapsto> output_node)\<rparr>
      in st\<lparr>pydot_graph := add_edge op_node output_node (add_node output_node (pydot_graph st))\<rparr>)"

text \<open>The body of \<open>for op_id, op in enumerate(graph.node)\<close>.\<close>

definition op_step :: "producer \<Rightarrow> int list \<Rightarrow> builder \<Rightarrow> nat \<times> NodeProto \<Rightarrow> builder" where
  "op_step node_producer marked_list st = (\<lambda>(op_id, op).
     (let op_node = (if int op_id \<in> set marked_list
                     then node_producer op op_id OP_STYLE_1
                     else node_producer op op_id OP_STYLE);
          st = st\<lparr>pydot_graph := add_node op_node (pydot_graph st)\<rparr>;
          st = foldl (input_step op_node) st (input op)
      in foldl (output_step op_node) st (output' op)))"

definition init_builder :: "pystr option \<Rightarrow> pystr \<Rightarrow> builder" where
  "init_builder nm rd =
     \<lparr>pydot_graph = \<lparr>graph_name = nm, rankdir = rd, items = []\<rparr>,
      pydot_nodes = Map.empty,
      pydot_node_counts = (\<lambda>_. 0)\<rparr>"

definition GetPydotGraph ::
  "GraphProto \<Rightarrow> pystr option \<Rightarrow> pystr \<Rightarrow> producer option \<Rightarrow> bool \<Rightarrow> int list \<Rightarrow> Dot" where
  "GetPydotGraph graph nm rd node_producer embed_docstring marked_list =
     (let node_producer = (case node_producer of
                             None \<Rightarrow> GetOpNodeProducer embed_docstring
                           | Some p \<Rightarrow> p)
      in pydot_graph (foldl (op_step node_producer marked_list) (init_builder nm rd)
                        (enumerate 0 (node graph))))"

section \<open>The entry point\<close>

text \<open>
  \<open>int(e)\<close> on a string, in base 10: white space is skipped at both ends, one sign may
  follow, then come decimal digits, with single underscores allowed between digits; anything
  else raises \<open>ValueError\<close> (here \<open>None\<close>). Which characters are white space and which are
  decimal digits (and their values) is in the Unicode tables of the interpreter, which are
  parameters. The limit of the interpreter on the number of digits is not modelled.
\<close>

fun int_digits :: "(nat \<Rightarrow> nat option) \<Rightarrow> bool \<Rightarrow> nat \<Rightarrow> pystr \<Rightarrow> nat option" where
  "int_digits dec prev acc [] = (if prev then Some acc else None)"
| "int_digits dec prev acc (c # cs) =
     (if c = 95 then (if prev then int_digits dec False acc cs else None)
      else (case dec c of
              None \<Rightarrow> None
            | Some d \<Rightarrow> int_digits dec True (acc * 10 + d) cs))"

definition py_int :: "(nat \<Rightarrow> bool) \<Rightarrow> (nat \<Rightarrow> nat option) \<Rightarrow> pystr \<Rightarrow> int option" where
  "py_int sp dec s =
     (let t = rev (dropWhile sp (rev (dropWhile sp s)));
          neg = (case t of [] \<Rightarrow> False | c # r \<Rightarrow> c = 45);
          u = (case t of [] \<Rightarrow> [] | c # r \<Rightarrow> if c = 45 \<or> c = 43 then r else t)
      in case int_digits dec False 0 u of
           None \<Rightarrow> None
         | Some n \<Rightarrow> Some (if neg then - int n else int n))"

text \<open>The namespace that \<open>parser.parse_args()\<close> returns.\<close>

record args =
  arg_input :: pystr
  arg_output :: pystr
  arg_rankdir :: pystr
  arg_embed_docstring :: bool
  arg_marked :: int
  arg_marked_list :: pystr

text \<open>
  What \<open>main\<close> uses from outside the repository: the Unicode tables behind \<open>int\<close>, reading
  the input file (\<open>None\<close> when it cannot be opened or read), \<open>ModelProto.ParseFromString\<close>
  followed by \<open>.graph\<close> (\<open>None\<close> when the bytes do not decode), and \<open>write_dot\<close> (whether
  the output can be written).
\<close>

record env =
  isspace :: "nat \<Rightarrow> bool"
  todecimal :: "nat \<Rightarrow> nat option"
  read_file :: "pystr \<Rightarrow> nat list option"
  ParseFromString :: "nat list \<Rightarrow> GraphProto option"
  write_dot :: "Dot \<Rightarrow> pystr \<Rightarrow> bool"

datatype error = ValueError | OpenError | DecodeError | WriteError

text \<open>What a run does to the outside, in order.\<close>

datatype event = OpenInput pystr | ParseModel | BuildGraph | WriteDot pystr Dot

text \<open>Lines 151 to 154: the highlight list.\<close>

definition marked_list_of :: "env \<Rightarrow> args \<Rightarrow> error + int list" where
  "marked_list_of w a =
     (if arg_marked a \<noteq> 0
      then (case those (map (py_int (isspace w) (todecimal w)) (split 95 (arg_marked_list a))) of
              None \<Rightarrow> Inl ValueError
            | Some marked_list \<Rightarrow> Inr marked_list)
      else Inr [])"

text \<open>Lines 150 to 169: the result of the run and the trace of its events.\<close>

definition main :: "env \<Rightarrow> args \<Rightarrow> (error + unit) \<times> event list" where
  "main w a =
     (case marked_list_of w a of
        Inl e \<Rightarrow> (Inl e, [])
      | Inr marked_list \<Rightarrow>
          (case read_file w (arg_input a) of
             None \<Rightarrow> (Inl OpenError, [OpenInput (arg_input a)])
           | Some content \<Rightarrow>
               (case ParseFromString w content of
                  None \<Rightarrow> (Inl DecodeError, [OpenInput (arg_input a), ParseModel])
                | Some graph \<Rightarrow>
                    (let pydot_graph =
                           GetPydotGraph graph (Some (gname graph)) (arg_rankdir a)
                             (Some (GetOpNodeProducer (arg_embed_docstring a))) False marked_list;
                         trace = [OpenInput (arg_input a), ParseModel, BuildGraph,
                                  WriteDot (arg_output a) pydot_graph]
                     in if write_dot w pydot_graph (arg_output a)
                        then (Inr (), trace)
                        else (Inl WriteError, trace)))))"

section \<open>Scenarios and observations\<close>

text \<open>The single operator of the scenario: type \<open>Add\<close>, no name, inputs x and y, output z.\<close>

definition add_op :: NodeProto where
  "add_op = \<lparr>name = [], op_type = lit ''Add'', input = [lit ''x'', lit ''y''],
             output' = [lit ''z''], doc_string = []\<rparr>"

text \<open>A literal between double quotes, and the value node with a given identity and label.\<close>

definition quoted :: "string \<Rightarrow> pystr" where
  "quoted s = [34] @ lit s @ [34]"

definition blob :: "string \<Rightarrow> string \<Rightarrow> Node" where
  "blob ident label =
     \<lparr>get_name = quoted ident, get_port = None,
      get_attributes = [(lit ''label'', quoted label), (lit ''shape'', lit ''octagon'')]\<rparr>"

text \<open>
  One operator that writes the name z eleven times and then the name z1: the eleventh
  write of z has the counter at 10.
\<close>

definition collide_op :: NodeProto where
  "collide_op = \<lparr>name = [], op_type = lit ''Split'', input = [],
                 output' = [lit ''z'', lit ''z'', lit ''z'', lit ''z'', lit ''z'', lit ''z'',
                            lit ''z'', lit ''z'', lit ''z'', lit ''z'', lit ''z'', lit ''z1''],
                 doc_string = []\<rparr>"

text \<open>The operator node of that scenario.\<close>

definition add_op_node :: Node where
  "add_op_node = \<lparr>get_name = lit ''Add (op#0)'' @ [10] @ lit '' input0 x'' @ [10] @
                               lit '' input1 y'' @ [10] @ lit '' output0 z'',
                  get_port = None, get_attributes = OP_STYLE\<rparr>"

text \<open>
  An outside with the ASCII white space and digits, whose input file holds a model of
  three operators, and a command line with given \<open>--marked\<close> and \<open>--marked_list\<close>.
\<close>

definition ascii_env :: env where
  "ascii_env =
     \<lparr>isspace = (\<lambda>c. c = 32 \<or> (9 \<le> c \<and> c \<le> 13)),
      todecimal = (\<lambda>c. if 48 \<le> c \<and> c \<le> 57 then Some (c - 48) else None),
      read_file = (\<lambda>p. Some []),
      ParseFromString = (\<lambda>b. Some \<lparr>node = [add_op, add_op, add_op], gname = []\<rparr>),
      write_dot = (\<lambda>g p. True)\<rparr>"

definition cli :: "int \<Rightarrow> string \<Rightarrow> args" where
  "cli m ml = \<lparr>arg_input = lit ''in.pb'', arg_output = lit ''out.dot'', arg_rankdir = lit ''LR'',
               arg_embed_docstring = False, arg_marked = m, arg_marked_list = lit ml\<rparr>"

text \<open>The nodes added to a graph, in the order of their addition.\<close>

fun added_nodes :: "item list \<Rightarrow> Node list" where
  "added_nodes [] = []"
| "added_nodes (AddNode n # rest) = n # added_nodes rest"
| "added_nodes (AddEdge a b # rest) = added_nodes rest"

text \<open>
  The operator nodes of a graph are its boxes: both operator styles have the shape
  \<open>box\<close>, the value nodes have the shape \<open>octagon\<close>.
\<close>

definition is_op_node :: "Node \<Rightarrow> bool" where
  "is_op_node n \<longleftrightarrow> map_of (get_attributes n) (lit ''shape'') = Some (lit ''box'')"

definition op_nodes :: "item list \<Rightarrow> Node list" where
  "op_nodes xs = filter is_op_node (added_nodes xs)"

text \<open>A node has a style when it carries each attribute of the style.\<close>

definition has_style :: "Node \<Rightarrow> (pystr \<times> pystr) list \<Rightarrow> bool" where
  "has_style n sty = list_all (\<lambda>(k, v). map_of (get_attributes n) k = Some v) sty"

text \<open>The operator node that the loop creates for the operator \<open>op\<close> at index \<open>i\<close>.\<close>

definition styled :: "producer \<Rightarrow> int list \<Rightarrow> nat \<times> NodeProto \<Rightarrow> Node" where
  "styled np ml = (\<lambda>(i, op). if int i \<in> set ml then np op i OP_STYLE_1 else np op i OP_STYLE)"

text \<open>
  The value node that an input step connects, and the counter with which an output step
  creates its node.
\<close>

definition the_input_node :: "builder \<Rightarrow> pystr \<Rightarrow> Node" where
  "the_input_node st x =
     (case pydot_nodes st x of None \<Rightarrow> value_node x (pydot_node_counts st x) | Some v \<Rightarrow> v)"

definition the_output_count :: "builder \<Rightarrow> pystr \<Rightarrow> nat" where
  "the_output_count st x =
     (if pydot_nodes st x \<noteq> None then pydot_node_counts st x + 1 else pydot_node_counts st x)"

text \<open>Invariants of the loop.\<close>

definition edges_follow_nodes :: "item list \<Rightarrow> bool" where
  "edges_follow_nodes xs \<longleftrightarrow>
     (\<forall>pre a b post. xs = pre @ AddEdge a b # post \<longrightarrow>
        AddNode a \<in> set pre \<and> AddNode b \<in> set pre)"

definition closed_with :: "Node \<Rightarrow> builder \<Rightarrow> bool" where
  "closed_with n st \<longleftrightarrow>
     edges_follow_nodes (items (pydot_graph st)) \<and> AddNode n \<in> set (items (pydot_graph st))"

definition values_only :: "builder \<Rightarrow> bool" where
  "values_only st \<longleftrightarrow> (\<forall>x v. pydot_nodes st x = Some v \<longrightarrow> \<not> is_op_node v)"

text \<open>The number that a string of decimal digits denotes, and the escaped text between the quotes.\<close>

definition digits_value :: "pystr \<Rightarrow> nat" where
  "digits_value s = foldl (\<lambda>acc d. acc * 10 + (d - 48)) 0 s"

definition escape_body :: "pystr \<Rightarrow> pystr" where
  "escape_body s = concat (map (\<lambda>c. if ESCAPE_ASCII c then replace c else [c]) s)"

text \<open>
  From one state of the loop to a later one, for a value name: its counter does not
  decrease, its entry in \<open>pydot_nodes\<close> stays, and the graph keeps its additions.
\<close>

definition grows :: "pystr \<Rightarrow> builder \<Rightarrow> builder \<Rightarrow> bool" where
  "grows x st st' \<longleftrightarrow>
     pydot_node_counts st x \<le> pydot_node_counts st' x \<and>
     (pydot_nodes st x \<noteq> None \<longrightarrow> pydot_nodes st' x \<noteq> None) \<and>
     set (items (pydot_graph st)) \<subseteq> set (items (pydot_graph st'))"

text \<open>
  After a write of the name \<open>x\<close> by the operator node \<open>n\<close>: the current node of \<open>x\<close> is the
  value node of \<open>x\<close> at its counter, it is in the graph with an edge from \<open>n\<close>, and the
  counter is above what it was when \<open>x\<close> already had a node.
\<close>

definition written :: "Node \<Rightarrow> pystr \<Rightarrow> builder \<Rightarrow> builder \<Rightarrow> bool" where
  "written n x st st' \<longleftrightarrow>
     pydot_nodes st' x = Some (value_node x (pydot_node_counts st' x)) \<and>
     AddNode (value_node x (pydot_node_counts st' x)) \<in> set (items (pydot_graph st')) \<and>
     AddEdge n (value_node x (pydot_node_counts st' x)) \<in> set (items (pydot_graph st')) \<and>
     (pydot_nodes st x \<noteq> None \<longrightarrow> pydot_node_counts st x < pydot_node_counts st' x)"

text \<open>
  The scenario of two writes: an operator that produces z, and one that consumes z and
  produces z again.
\<close>

definition relu_op :: NodeProto where
  "relu_op = \<lparr>name = [], op_type = lit ''Relu'', input = [lit ''x''],
              output' = [lit ''z''], doc_string = []\<rparr>"

definition inplace_op :: NodeProto where
  "inplace_op = \<lparr>name = [], op_type = lit ''Relu'', input = [lit ''z''],
                 output' = [lit ''z''], doc_string = []\<rparr>"

text \<open>
  The Unicode scalar values: the code points that are not surrogates. A string decoded
  from UTF-8, as every string of a model file is, holds only scalar values.
\<close>

definition scalar_value :: "nat \<Rightarrow> bool" where
  "scalar_value c \<longleftrightarrow> c < 0xD800 \<or> (0xE000 \<le> c \<and> c < 0x110000)"

text \<open>
  Reading a quoted string of the output format, from after its opening quote: a backslash
  takes the next character with it, and the first quote that no backslash takes ends the
  string. The result is the text between the quotes and what follows the closing quote.
\<close>

definition prepend :: "pystr \<Rightarrow> (pystr \<times> pystr) option \<Rightarrow> (pystr \<times> pystr) option" where
  "prepend p res = map_option (\<lambda>br. (p @ fst br, snd br)) res"

fun lex_quoted :: "pystr \<Rightarrow> (pystr \<times> pystr) option" where
  "lex_quoted [] = None"
| "lex_quoted [c] = (if c = 34 then Some ([], []) else None)"
| "lex_quoted (c # d # cs) =
     (if c = 34 then Some ([], d # cs)
      else if c = 92 then prepend [c, d] (lex_quoted cs)
      else prepend [c] (lex_quoted (d # cs)))"

text \<open>
  What \<open>encode_basestring_ascii\<close> writes for one character, and reading one character
  back from the front of an escaped text.
\<close>

definition unhex :: "nat \<Rightarrow> nat" where
  "unhex h = (if h < 58 then h - 48 else h - 87)"

definition hexval :: "nat \<Rightarrow> nat \<Rightarrow> nat \<Rightarrow> nat \<Rightarrow> nat" where
  "hexval h1 h2 h3 h4 = ((unhex h1 * 16 + unhex h2) * 16 + unhex h3) * 16 + unhex h4"

definition dec_head :: "pystr \<Rightarrow> (nat \<times> pystr) option" where
  "dec_head t =
     (case t of
        [] \<Rightarrow> None
      | x # t1 \<Rightarrow>
          if x \<noteq> 92 then Some (x, t1)
          else (case t1 of
                  [] \<Rightarrow> None
                | e # t2 \<Rightarrow>
                    if e = 92 then Some (92, t2)
                    else if e = 34 then Some (34, t2)
                    else if e = 98 then Some (8, t2)
                    else if e = 102 then Some (12, t2)
                    else if e = 110 then Some (10, t2)
                    else if e = 114 then Some (13, t2)
                    else if e = 116 then Some (9, t2)
                    else (case t2 of
                            h1 # h2 # h3 # h4 # t3 \<Rightarrow>
                              (let v = hexval h1 h2 h3 h4
                               in if 0xD800 \<le> v \<and> v < 0xDC00
                                  then (case t3 of
                                          b # u # l1 # l2 # l3 # l4 # t4 \<Rightarrow>
                                            Some (0x10000 + (v - 0xD800) * 1024 +
                                                  (hexval l1 l2 l3 l4 - 0xDC00), t4)
                                        | _ \<Rightarrow> None)
                                  else Some (v, t3))
                          | _ \<Rightarrow> None)))"

definition enc :: "nat \<Rightarrow> pystr" where
  "enc c = (if ESCAPE_ASCII c then replace c else [c])"


text \<open>
  The label that lines 59 to 66 build for an operator at an index: the head with the
  name, the type and the index, then one line per input and one per output.
\<close>

definition op_label :: "NodeProto \<Rightarrow> nat \<Rightarrow> pystr" where
  "op_label op i =
     (if name op = [] then op_type op @ lit '' (op#'' @ str i @ lit '')''
      else name op @ lit ''/'' @ op_type op @ lit '' (op#'' @ str i @ lit '')'') @
     concat (map (\<lambda>(j, x). ([10] @ lit '' input'') @ str j @ lit '' '' @ x) (enumerate 0 (input op))) @
     concat (map (\<lambda>(j, x). ([10] @ lit '' output'') @ str j @ lit '' '' @ x) (enumerate 0 (output' op)))"

text \<open>
  Operators whose labels hold a colon: one with the input \<open>conv1:0\<close>, and two named
  \<open>a:1\<close> and \<open>a:2\<close>.
\<close>

definition colon_op :: NodeProto where
  "colon_op = \<lparr>name = [], op_type = lit ''Add'', input = [lit ''conv1:0''],
               output' = [lit ''z''], doc_string = []\<rparr>"

definition scope_ops :: "NodeProto list" where
  "scope_ops =
     [\<lparr>name = lit ''a:1'', op_type = lit ''Relu'', input = [lit ''x''], output' = [lit ''y''],
       doc_string = []\<rparr>,
      \<lparr>name = lit ''a:2'', op_type = lit ''Relu'', input = [lit ''y''], output' = [lit ''z''],
       doc_string = []\<rparr>]"

text \<open>
  The node producer that \<open>GetPydotGraph\<close> uses, and the state of its loop after a list of
  operators, from the empty graph.
\<close>

definition producer_of :: "producer option \<Rightarrow> bool \<Rightarrow> producer" where
  "producer_of np e = (case np of None \<Rightarrow> GetOpNodeProducer e | Some p \<Rightarrow> p)"

definition run_loop :: "producer \<Rightarrow> int list \<Rightarrow> pystr option \<Rightarrow> pystr \<Rightarrow> NodeProto list \<Rightarrow> builder" where
  "run_loop np ml nm rd ops = foldl (op_step np ml) (init_builder nm rd) (enumerate 0 ops)"

text \<open>
  A later state of the loop extends the graph of an earlier one; and a state in which an
  operator node has written a value name holds, after the graph of the earlier state, the
  value node of the name at its counter, followed by the edge from the operator node.
\<close>

definition extends :: "builder \<Rightarrow> builder \<Rightarrow> bool" where
  "extends st st' \<longleftrightarrow> (\<exists>ext. items (pydot_graph st') = items (pydot_graph st) @ ext)"

definition writes :: "Node \<Rightarrow> pystr \<Rightarrow> builder \<Rightarrow> builder \<Rightarrow> bool" where
  "writes n x st st' \<longleftrightarrow>
     (\<exists>i1 i2. items (pydot_graph st') =
        items (pydot_graph st) @ i1 @
        [AddNode (value_node x (pydot_node_counts st' x)),
         AddEdge n (value_node x (pydot_node_counts st' x))] @ i2)"

text \<open>The graph of the scenario of two writes.\<close>

definition two_writes :: GraphProto where
  "two_writes = \<lparr>node = [relu_op, inplace_op], gname = []\<rparr>"

section \<open>Evaluation\<close>

lemma pydot_Node_attributes: "get_attributes (pydot_Node nm attrs) = attrs"
  by (simp add: pydot_Node_def Let_def)

lemma pydot_Node_quoted:
  "pydot_Node (34 # nm) attrs = \<lparr>get_name = 34 # nm, get_port = None, get_attributes = attrs\<rparr>"
  by (simp add: pydot_Node_def startswith_quote_def Let_def)

lemma value_node_eq:
  "value_node nm c =
     \<lparr>get_name = escape_label (nm @ str c), get_port = None,
      get_attributes = (lit ''label'', escape_label nm) # BLOB_STYLE\<rparr>"
  by (simp add: value_node_def escape_label_def json_dumps_def encode_basestring_ascii_def
      pydot_Node_quoted)

lemmas eval_defs =
  GetPydotGraph_def GetOpNodeProducer_def op_step_def init_builder_def enumerate_eq_zip
  input_step_def output_step_def add_node_def add_edge_def value_node_eq ReallyGetOpNode_def
  pydot_Node_def startswith_quote_def
  escape_label_def json_dumps_def encode_basestring_ascii_def ESCAPE_ASCII_def lit_def str.simps
  OP_STYLE_def OP_STYLE_1_def BLOB_STYLE_def Let_def

section \<open>The scenario of a single operator\<close>

text \<open>
  C2. For the single unnamed operator \<open>Add\<close> with inputs x, y and output z and an empty
  highlight list, the graph holds, in this order: the operator node, named
  \<open>Add (op#0)\<close> followed by the lines \<open> input0 x\<close>, \<open> input1 y\<close>, \<open> output0 z\<close>, in the
  default style; the value node of x and the edge from x to the operator; the value node
  of y and the edge from y to the operator; the value node of z and the edge from the
  operator to z. So there are one operator node, two input value nodes labelled x and y,
  one output value node labelled z, and three edges.
\<close>

theorem single_add_graph:
  "items (GetPydotGraph \<lparr>node = [add_op], gname = []\<rparr> None (lit ''LR'') None False []) =
     (let op_node = \<lparr>get_name = lit ''Add (op#0)'' @ [10] @ lit '' input0 x'' @ [10] @
                               lit '' input1 y'' @ [10] @ lit '' output0 z'',
                    get_port = None, get_attributes = OP_STYLE\<rparr>;
          x = blob ''x0'' ''x''; y = blob ''y0'' ''y''; z = blob ''z0'' ''z''
      in [AddNode op_node,
          AddNode x, AddEdge x op_node,
          AddNode y, AddEdge y op_node,
          AddNode z, AddEdge op_node z])"
  by (simp add: eval_defs add_op_def blob_def quoted_def)

section \<open>Identities of value nodes\<close>

text \<open>
  C10, as stated, fails at its own example: the name z10 at occurrence 0 has the identity
  \<open>z100\<close>, not \<open>z10\<close>, so it does not meet the name z at occurrence 10.
\<close>

theorem value_identity_z10_at_0:
  "get_name (value_node (lit ''z10'') 0) = quoted ''z100'' \<and>
   get_name (value_node (lit ''z'') 10) = quoted ''z10'' \<and>
   get_name (value_node (lit ''z10'') 0) \<noteq> get_name (value_node (lit ''z'') 10)"
  by (simp add: eval_defs quoted_def)

text \<open>
  C10, amended. The identity of a value node is the escaped concatenation of its name and
  its decimal counter, and it is not injective over different names: the name z at
  occurrence 10 and the name z1 at occurrence 0 both have the identity \<open>z10\<close>. The graph of
  an operator that writes z eleven times and then z1 holds two value nodes with this one
  identity and the different labels z and z1.
\<close>

theorem value_identity_collision:
  "lit ''z'' \<noteq> lit ''z1'' \<and>
   get_name (value_node (lit ''z'') 10) = quoted ''z10'' \<and>
   get_name (value_node (lit ''z1'') 0) = quoted ''z10'' \<and>
   (let g = GetPydotGraph \<lparr>node = [collide_op], gname = []\<rparr> None (lit ''LR'') None False []
    in AddNode (blob ''z10'' ''z'') \<in> set (items g) \<and>
       AddNode (blob ''z10'' ''z1'') \<in> set (items g))"
  by (simp add: eval_defs quoted_def blob_def collide_op_def)

section \<open>The action string of an operator node\<close>

lemma replace_char_removes: "c \<notin> set (replace_char c [] s)"
  by (induction s) (auto simp: replace_char_def)

lemma replace_char_keeps_absent:
  "c \<notin> set s \<Longrightarrow> c \<notin> set new \<Longrightarrow> c \<notin> set (replace_char old new s)"
  by (induction s) (auto simp: replace_char_def)

lemma replace_char_substitutes: "old \<notin> set new \<Longrightarrow> old \<notin> set (replace_char old new s)"
  by (induction s) (auto simp: replace_char_def)

lemma sanitize_shape:
  "form_and_sanitize_docstring s = lit ''javascript:alert('' @
      replace_char 62 [] (replace_char 60 [] (replace_char 34 [39] (json_dumps s))) @ lit '')''"
  by (simp add: form_and_sanitize_docstring_def escape_label_def)

lemma sanitize_free:
  "34 \<notin> set (form_and_sanitize_docstring s)"
  "60 \<notin> set (form_and_sanitize_docstring s)"
  "62 \<notin> set (form_and_sanitize_docstring s)"
proof -
  let ?a = "replace_char 34 [39] (json_dumps s)"
  let ?b = "replace_char 60 [] ?a"
  let ?c = "replace_char 62 [] ?b"
  have a: "34 \<notin> set ?a"
    by (rule replace_char_substitutes) simp
  have b: "34 \<notin> set ?b" "60 \<notin> set ?b"
    using a by (simp_all add: replace_char_keeps_absent replace_char_removes)
  have c: "34 \<notin> set ?c" "60 \<notin> set ?c" "62 \<notin> set ?c"
    using b by (simp_all add: replace_char_keeps_absent replace_char_removes)
  show "34 \<notin> set (form_and_sanitize_docstring s)"
    "60 \<notin> set (form_and_sanitize_docstring s)"
    "62 \<notin> set (form_and_sanitize_docstring s)"
    using c by (simp_all add: sanitize_shape lit_def)
qed

lemma sanitize_apostrophe: "39 \<in> set (form_and_sanitize_docstring s)"
  by (simp add: sanitize_shape json_dumps_def encode_basestring_ascii_def replace_char_def)

text \<open>
  C7, as stated, fails: the quote characters of the escaped text are not stripped, each
  double quote is replaced by a single quote. For the documentation text that is one
  double quote the action string is \<open>javascript:alert('\'')\<close>, which holds three quote
  characters.
\<close>

theorem docstring_url_keeps_quotes:
  "form_and_sanitize_docstring [34] = lit ''javascript:alert('' @ [39, 92, 39, 39] @ lit '')'' \<and>
   39 \<in> set (form_and_sanitize_docstring [34])"
  by (simp add: form_and_sanitize_docstring_def eval_defs replace_char_def replace_def)

text \<open>
  C7, amended. With documentation embedding, the node of every operator carries under
  \<open>URL\<close> the action string built from the operator's documentation text: the text is
  escaped, each double quote of the escaped form is replaced by a single quote, and the
  angle brackets are removed, between \<open>javascript:alert(\<close> and \<open>)\<close>. The string holds no
  double quote and no angle bracket; it does hold single quotes.
\<close>

theorem docstring_url_sanitized:
  "map_of (get_attributes (GetOpNodeProducer True op op_id kwargs)) (lit ''URL'')
     = Some (form_and_sanitize_docstring (doc_string op)) \<and>
   form_and_sanitize_docstring (doc_string op) =
     lit ''javascript:alert('' @
     replace_char 62 [] (replace_char 60 [] (replace_char 34 [39] (escape_label (doc_string op)))) @
     lit '')'' \<and>
   34 \<notin> set (form_and_sanitize_docstring (doc_string op)) \<and>
   60 \<notin> set (form_and_sanitize_docstring (doc_string op)) \<and>
   62 \<notin> set (form_and_sanitize_docstring (doc_string op)) \<and>
   39 \<in> set (form_and_sanitize_docstring (doc_string op))"
proof -
  have "map_of (get_attributes (GetOpNodeProducer True op op_id kwargs)) (lit ''URL'')
     = Some (form_and_sanitize_docstring (doc_string op))"
    by (simp add: GetOpNodeProducer_def ReallyGetOpNode_def Let_def set_URL_def AList.update_conv'
        pydot_Node_attributes)
  moreover have "form_and_sanitize_docstring (doc_string op) =
     lit ''javascript:alert('' @
     replace_char 62 [] (replace_char 60 [] (replace_char 34 [39] (escape_label (doc_string op)))) @
     lit '')''"
    by (simp add: form_and_sanitize_docstring_def)
  ultimately show ?thesis
    using sanitize_free [of "doc_string op"] sanitize_apostrophe [of "doc_string op"] by blast
qed

section \<open>The steps of the loop\<close>

lemma input_step_items:
  "items (pydot_graph (input_step n st x)) =
     items (pydot_graph st) @ [AddNode (the_input_node st x), AddEdge (the_input_node st x) n]"
  by (simp add: input_step_def the_input_node_def add_node_def add_edge_def Let_def split: option.split)

lemma input_step_nodes:
  "pydot_nodes (input_step n st x) = (pydot_nodes st)(x \<mapsto> the_input_node st x)"
  by (auto simp add: input_step_def the_input_node_def Let_def split: option.split)

lemma input_step_counts:
  "pydot_node_counts (input_step n st x) = pydot_node_counts st"
  by (simp add: input_step_def Let_def split: option.split)

lemma output_step_items:
  "items (pydot_graph (output_step n st x)) =
     items (pydot_graph st) @ [AddNode (value_node x (the_output_count st x)),
                               AddEdge n (value_node x (the_output_count st x))]"
  by (simp add: output_step_def the_output_count_def add_node_def add_edge_def Let_def)

lemma output_step_nodes:
  "pydot_nodes (output_step n st x) = (pydot_nodes st)(x \<mapsto> value_node x (the_output_count st x))"
  by (simp add: output_step_def the_output_count_def Let_def)

lemma output_step_counts:
  "pydot_node_counts (output_step n st x) = (pydot_node_counts st)(x := the_output_count st x)"
  by (auto simp add: output_step_def the_output_count_def Let_def)

section \<open>Every edge follows its nodes\<close>

lemma efn_Nil: "edges_follow_nodes []"
  by (simp add: edges_follow_nodes_def)

lemma efn_snoc_node: "edges_follow_nodes xs \<Longrightarrow> edges_follow_nodes (xs @ [AddNode n])"
  unfolding edges_follow_nodes_def
proof (intro allI impI)
  fix pre a b post
  assume h: "\<forall>pre a b post. xs = pre @ AddEdge a b # post \<longrightarrow> AddNode a \<in> set pre \<and> AddNode b \<in> set pre"
    and e: "xs @ [AddNode n] = pre @ AddEdge a b # post"
  show "AddNode a \<in> set pre \<and> AddNode b \<in> set pre"
  proof (cases post rule: rev_cases)
    case Nil
    with e show ?thesis by simp
  next
    case (snoc post' y)
    with e have "xs = pre @ AddEdge a b # post'" by simp
    with h show ?thesis by blast
  qed
qed

lemma efn_snoc_edge:
  "edges_follow_nodes xs \<Longrightarrow> AddNode a \<in> set xs \<Longrightarrow> AddNode b \<in> set xs \<Longrightarrow>
   edges_follow_nodes (xs @ [AddEdge a b])"
  unfolding edges_follow_nodes_def
proof (intro allI impI)
  fix pre a' b' post
  assume h: "\<forall>pre a b post. xs = pre @ AddEdge a b # post \<longrightarrow> AddNode a \<in> set pre \<and> AddNode b \<in> set pre"
    and a: "AddNode a \<in> set xs" and b: "AddNode b \<in> set xs"
    and e: "xs @ [AddEdge a b] = pre @ AddEdge a' b' # post"
  show "AddNode a' \<in> set pre \<and> AddNode b' \<in> set pre"
  proof (cases post rule: rev_cases)
    case Nil
    with e have "xs = pre" "a' = a" "b' = b" by simp_all
    with a b show ?thesis by simp
  next
    case (snoc post' y)
    with e have "xs = pre @ AddEdge a' b' # post'" by simp
    with h show ?thesis by blast
  qed
qed

lemma input_step_closed: "closed_with n st \<Longrightarrow> closed_with n (input_step n st x)"
proof -
  assume c: "closed_with n st"
  let ?xs = "items (pydot_graph st)" and ?v = "the_input_node st x"
  have 1: "edges_follow_nodes (?xs @ [AddNode ?v])"
    using c by (simp add: closed_with_def efn_snoc_node)
  have "edges_follow_nodes ((?xs @ [AddNode ?v]) @ [AddEdge ?v n])"
    using c by (intro efn_snoc_edge 1) (simp_all add: closed_with_def)
  then show ?thesis
    using c by (simp add: closed_with_def input_step_items)
qed

lemma output_step_closed: "closed_with n st \<Longrightarrow> closed_with n (output_step n st x)"
proof -
  assume c: "closed_with n st"
  let ?xs = "items (pydot_graph st)" and ?v = "value_node x (the_output_count st x)"
  have 1: "edges_follow_nodes (?xs @ [AddNode ?v])"
    using c by (simp add: closed_with_def efn_snoc_node)
  have "edges_follow_nodes ((?xs @ [AddNode ?v]) @ [AddEdge n ?v])"
    using c by (intro efn_snoc_edge 1) (simp_all add: closed_with_def)
  then show ?thesis
    using c by (simp add: closed_with_def output_step_items)
qed

lemma inputs_closed: "closed_with n st \<Longrightarrow> closed_with n (foldl (input_step n) st xs)"
  by (induction xs arbitrary: st) (simp_all add: input_step_closed)

lemma outputs_closed: "closed_with n st \<Longrightarrow> closed_with n (foldl (output_step n) st xs)"
  by (induction xs arbitrary: st) (simp_all add: output_step_closed)

lemma op_step_efn:
  "edges_follow_nodes (items (pydot_graph st)) \<Longrightarrow>
   edges_follow_nodes (items (pydot_graph (op_step np ml st iop)))"
proof -
  assume h: "edges_follow_nodes (items (pydot_graph st))"
  obtain i op where iop: "iop = (i, op)" by (cases iop)
  define n where "n = (if int i \<in> set ml then np op i OP_STYLE_1 else np op i OP_STYLE)"
  define st1 where "st1 = st\<lparr>pydot_graph := add_node n (pydot_graph st)\<rparr>"
  have "closed_with n st1"
    using h by (simp add: closed_with_def st1_def add_node_def efn_snoc_node)
  then have "closed_with n (foldl (output_step n) (foldl (input_step n) st1 (input op)) (output' op))"
    by (intro outputs_closed inputs_closed)
  then show ?thesis
    by (simp add: iop op_step_def Let_def n_def st1_def closed_with_def)
qed

lemma ops_efn:
  "edges_follow_nodes (items (pydot_graph st)) \<Longrightarrow>
   edges_follow_nodes (items (pydot_graph (foldl (op_step np ml) st iops)))"
  by (induction iops arbitrary: st) (simp_all add: op_step_efn)

lemma GetPydotGraph_efn: "edges_follow_nodes (items (GetPydotGraph graph nm rd np e ml))"
  by (simp add: GetPydotGraph_def Let_def ops_efn init_builder_def efn_Nil)

text \<open>
  C9. For every operator sequence (and every node producer), every edge of the graph of
  \<open>GetPydotGraph\<close> connects two nodes that were added before it: at an edge from \<open>a\<close> to
  \<open>b\<close>, both \<open>a\<close> and \<open>b\<close> are among the additions that precede the edge.
\<close>

theorem edges_connect_added_nodes:
  "items (GetPydotGraph graph nm rd np e ml) = pre @ AddEdge a b # post \<Longrightarrow>
   AddNode a \<in> set pre \<and> AddNode b \<in> set pre"
  using GetPydotGraph_efn [of graph nm rd np e ml] unfolding edges_follow_nodes_def by blast

text \<open>In the graph of the single operator \<open>Add\<close>, the edge from x to the operator.\<close>

theorem edges_connect_added_nodes_witness:
  "items (GetPydotGraph \<lparr>node = [add_op], gname = []\<rparr> None (lit ''LR'') None False []) =
     [AddNode add_op_node, AddNode (blob ''x0'' ''x'')] @
     AddEdge (blob ''x0'' ''x'') add_op_node #
     [AddNode (blob ''y0'' ''y''), AddEdge (blob ''y0'' ''y'') add_op_node,
      AddNode (blob ''z0'' ''z''), AddEdge add_op_node (blob ''z0'' ''z'')] \<and>
   AddNode (blob ''x0'' ''x'') \<in> set [AddNode add_op_node, AddNode (blob ''x0'' ''x'')] \<and>
   AddNode add_op_node \<in> set [AddNode add_op_node, AddNode (blob ''x0'' ''x'')]"
proof -
  have h: "items (GetPydotGraph \<lparr>node = [add_op], gname = []\<rparr> None (lit ''LR'') None False []) =
     [AddNode add_op_node, AddNode (blob ''x0'' ''x'')] @
     AddEdge (blob ''x0'' ''x'') add_op_node #
     [AddNode (blob ''y0'' ''y''), AddEdge (blob ''y0'' ''y'') add_op_node,
      AddNode (blob ''z0'' ''z''), AddEdge add_op_node (blob ''z0'' ''z'')]"
    by (simp add: eval_defs add_op_def add_op_node_def blob_def quoted_def)
  from edges_connect_added_nodes [OF h] h show ?thesis by blast
qed

section \<open>The operator nodes\<close>

lemma added_nodes_append: "added_nodes (xs @ ys) = added_nodes xs @ added_nodes ys"
  by (induction xs rule: added_nodes.induct) simp_all

lemma value_node_not_op: "\<not> is_op_node (value_node x c)"
  by (simp add: is_op_node_def value_node_eq BLOB_STYLE_def lit_def)

lemma the_input_node_not_op: "values_only st \<Longrightarrow> \<not> is_op_node (the_input_node st x)"
  by (auto simp: values_only_def the_input_node_def value_node_not_op split: option.split)

lemma input_step_values_only: "values_only st \<Longrightarrow> values_only (input_step n st x)"
  using the_input_node_not_op [of st x] by (auto simp: values_only_def input_step_nodes)

lemma output_step_values_only: "values_only st \<Longrightarrow> values_only (output_step n st x)"
  by (auto simp: values_only_def output_step_nodes value_node_not_op)

lemma input_step_op_nodes:
  "values_only st \<Longrightarrow> op_nodes (items (pydot_graph (input_step n st x))) = op_nodes (items (pydot_graph st))"
  by (simp add: op_nodes_def input_step_items added_nodes_append the_input_node_not_op)

lemma output_step_op_nodes:
  "op_nodes (items (pydot_graph (output_step n st x))) = op_nodes (items (pydot_graph st))"
  by (simp add: op_nodes_def output_step_items added_nodes_append value_node_not_op)

lemma inputs_op_nodes:
  "values_only st \<Longrightarrow>
   values_only (foldl (input_step n) st xs) \<and>
   op_nodes (items (pydot_graph (foldl (input_step n) st xs))) = op_nodes (items (pydot_graph st))"
  by (induction xs arbitrary: st) (simp_all add: input_step_values_only input_step_op_nodes)

lemma outputs_op_nodes:
  "values_only st \<Longrightarrow>
   values_only (foldl (output_step n) st xs) \<and>
   op_nodes (items (pydot_graph (foldl (output_step n) st xs))) = op_nodes (items (pydot_graph st))"
  by (induction xs arbitrary: st) (simp_all add: output_step_values_only output_step_op_nodes)

lemma op_step_op_nodes:
  assumes v: "values_only st" and p: "is_op_node (styled np ml iop)"
  shows "values_only (op_step np ml st iop) \<and>
         op_nodes (items (pydot_graph (op_step np ml st iop))) =
           op_nodes (items (pydot_graph st)) @ [styled np ml iop]"
proof -
  obtain i op where iop: "iop = (i, op)" by (cases iop)
  define n where "n = styled np ml iop"
  define st1 where "st1 = st\<lparr>pydot_graph := add_node n (pydot_graph st)\<rparr>"
  have v1: "values_only st1" using v by (simp add: values_only_def st1_def)
  have o1: "op_nodes (items (pydot_graph st1)) = op_nodes (items (pydot_graph st)) @ [n]"
    using p by (simp add: st1_def add_node_def op_nodes_def added_nodes_append n_def)
  have e: "op_step np ml st iop = foldl (output_step n) (foldl (input_step n) st1 (input op)) (output' op)"
    by (simp add: iop op_step_def Let_def n_def st1_def styled_def)
  from inputs_op_nodes [OF v1, of n "input op"]
  have v2: "values_only (foldl (input_step n) st1 (input op))"
    and o2: "op_nodes (items (pydot_graph (foldl (input_step n) st1 (input op)))) = op_nodes (items (pydot_graph st1))"
    by simp_all
  from outputs_op_nodes [OF v2, of n "output' op"] o2 o1 e show ?thesis
    by (simp add: n_def)
qed

lemma ops_op_nodes:
  "values_only st \<Longrightarrow> \<forall>iop \<in> set iops. is_op_node (styled np ml iop) \<Longrightarrow>
   op_nodes (items (pydot_graph (foldl (op_step np ml) st iops))) =
     op_nodes (items (pydot_graph st)) @ map (styled np ml) iops"
proof (induction iops arbitrary: st)
  case Nil
  then show ?case by simp
next
  case (Cons iop iops)
  from op_step_op_nodes [OF Cons.prems(1), of np ml iop] Cons.prems(2)
  have v: "values_only (op_step np ml st iop)"
    and o: "op_nodes (items (pydot_graph (op_step np ml st iop))) = op_nodes (items (pydot_graph st)) @ [styled np ml iop]"
    by simp_all
  from Cons.IH [OF v] Cons.prems(2) o show ?case by simp
qed

lemma ReallyGetOpNode_attributes:
  "get_attributes (ReallyGetOpNode e op i kw) =
     (if e then AList.update (lit ''URL'') (form_and_sanitize_docstring (doc_string op)) kw else kw)"
  by (simp add: ReallyGetOpNode_def Let_def set_URL_def pydot_Node_attributes)

lemma map_of_URL_update:
  "k \<noteq> lit ''URL'' \<Longrightarrow> map_of (AList.update (lit ''URL'') u kw) k = map_of kw k"
  by (simp add: AList.update_conv')

lemma default_is_op_node: "is_op_node (styled (ReallyGetOpNode e) ml iop)"
  by (cases iop) (simp add: styled_def is_op_node_def ReallyGetOpNode_attributes AList.update_conv'
      OP_STYLE_def OP_STYLE_1_def lit_def)

lemma default_op_nodes:
  "op_nodes (items (GetPydotGraph graph nm rd None e ml)) =
     map (styled (ReallyGetOpNode e) ml) (enumerate 0 (node graph))"
proof -
  have v: "values_only (init_builder nm rd)"
    by (simp add: values_only_def init_builder_def)
  have "op_nodes (items (pydot_graph (init_builder nm rd))) = []"
    by (simp add: init_builder_def op_nodes_def)
  with ops_op_nodes [OF v, of "enumerate 0 (node graph)" "ReallyGetOpNode e" ml]
  show ?thesis
    by (simp add: GetPydotGraph_def GetOpNodeProducer_def default_is_op_node)
qed

lemma foldl_append_lines:
  "foldl (\<lambda>acc (i, x). acc @ f i x) a xs = a @ concat (map (\<lambda>(i, x). f i x) xs)"
  by (induction xs arbitrary: a) (simp_all add: case_prod_beta)

lemma ReallyGetOpNode_label:
  "ReallyGetOpNode e op i kw =
     (let node = pydot_Node (op_label op i) kw
      in if e then set_URL (form_and_sanitize_docstring (doc_string op)) node else node)"
  by (simp add: ReallyGetOpNode_def op_label_def Let_def foldl_append_lines)

lemma takeWhile_no_colon: "(58::nat) \<notin> set nm \<Longrightarrow> takeWhile (\<lambda>c. c \<noteq> 58) nm = nm"
  by (induction nm) auto

lemma pydot_Node_no_colon: "58 \<notin> set nm \<Longrightarrow> get_name (pydot_Node nm attrs) = nm"
  by (simp add: pydot_Node_def Let_def takeWhile_no_colon)

lemma op_label_kept:
  "58 \<notin> set (op_label op i) \<Longrightarrow> get_name (ReallyGetOpNode e op i kw) = op_label op i"
  by (simp add: ReallyGetOpNode_label Let_def set_URL_def pydot_Node_no_colon)

text \<open>
  C3. The loop adds one operator node per operator, and \<open>ReallyGetOpNode\<close> builds for it the
  label with the name, the type, the index, the inputs and the outputs; but it hands the
  label to \<open>pydot.Node\<close> unescaped, and a label with a colon is cut there. For the single operator \<open>Add\<close> with the input \<open>conv1:0\<close> and the output
  z, the name of the operator node is \<open>Add (op#0)\<close> followed by the line \<open> input0 conv1\<close>: the
  rest of the label, with the line of the output, has become the port. For the two
  operators named \<open>a:1\<close> and \<open>a:2\<close>, both operator nodes have the name \<open>a\<close>, so the two
  operators are one node of the drawing.
\<close>

theorem op_label_cut_at_colon:
  "op_label colon_op 0 = lit ''Add (op#0)'' @ [10] @ lit '' input0 conv1:0'' @ [10] @ lit '' output0 z'' \<and>
   map get_name (op_nodes (items (GetPydotGraph \<lparr>node = [colon_op], gname = []\<rparr> None (lit ''LR'') None False [])))
     = [lit ''Add (op#0)'' @ [10] @ lit '' input0 conv1''] \<and>
   map get_port (op_nodes (items (GetPydotGraph \<lparr>node = [colon_op], gname = []\<rparr> None (lit ''LR'') None False [])))
     = [Some (lit '':0'' @ [10] @ lit '' output0 z'')] \<and>
   length scope_ops = 2 \<and>
   map get_name (op_nodes (items (GetPydotGraph \<lparr>node = scope_ops, gname = []\<rparr> None (lit ''LR'') None False [])))
     = [lit ''a'', lit ''a'']"
  by (simp add: eval_defs op_label_def colon_op_def scope_ops_def op_nodes_def is_op_node_def)

lemma has_style_ReallyGetOpNode:
  "has_style (ReallyGetOpNode e op i OP_STYLE_1) OP_STYLE_1"
  "has_style (ReallyGetOpNode e op i OP_STYLE) OP_STYLE"
  "\<not> has_style (ReallyGetOpNode e op i OP_STYLE_1) OP_STYLE"
  "\<not> has_style (ReallyGetOpNode e op i OP_STYLE) OP_STYLE_1"
  by (simp_all add: has_style_def ReallyGetOpNode_attributes AList.update_conv'
      OP_STYLE_def OP_STYLE_1_def lit_def)

text \<open>
  C4. The operator node at index \<open>i\<close> is created with the style \<open>OP_STYLE_1\<close> when \<open>i\<close> is
  in the highlight list and with \<open>OP_STYLE\<close> when it is not; it has the highlighted style
  if and only if \<open>i\<close> is in the list, and the default style if and only if it is not.
\<close>

theorem highlighted_iff_marked:
  assumes "i < length (node graph)"
  shows "(let n = op_nodes (items (GetPydotGraph graph nm rd None e ml)) ! i
          in (int i \<in> set ml \<longrightarrow> n = ReallyGetOpNode e (node graph ! i) i OP_STYLE_1) \<and>
             (int i \<notin> set ml \<longrightarrow> n = ReallyGetOpNode e (node graph ! i) i OP_STYLE) \<and>
             (has_style n OP_STYLE_1 \<longleftrightarrow> int i \<in> set ml) \<and>
             (has_style n OP_STYLE \<longleftrightarrow> int i \<notin> set ml))"
proof -
  have "op_nodes (items (GetPydotGraph graph nm rd None e ml)) ! i =
          styled (ReallyGetOpNode e) ml (i, node graph ! i)"
    using assms by (simp add: default_op_nodes nth_enumerate_eq)
  then show ?thesis
    by (simp add: styled_def Let_def has_style_ReallyGetOpNode)
qed

text \<open>
  The scenario: \<open>--marked 1 --marked_list "0_2"\<close> gives the list \<open>[0, 2]\<close>, and of three
  operators the nodes at 0 and 2 are highlighted and the node at 1 has the default style.
\<close>

theorem highlighted_iff_marked_witness:
  "marked_list_of ascii_env (cli 1 ''0_2'') = Inr [0, 2] \<and>
   (let g = \<lparr>node = [add_op, add_op, add_op], gname = []\<rparr>;
        ns = op_nodes (items (GetPydotGraph g None (lit ''LR'') None False [0, 2]))
    in has_style (ns ! 0) OP_STYLE_1 \<and> \<not> has_style (ns ! 0) OP_STYLE \<and>
       has_style (ns ! 1) OP_STYLE \<and> \<not> has_style (ns ! 1) OP_STYLE_1 \<and>
       has_style (ns ! 2) OP_STYLE_1 \<and> \<not> has_style (ns ! 2) OP_STYLE)"
proof -
  let ?g = "\<lparr>node = [add_op, add_op, add_op], gname = []\<rparr>"
  let ?ns = "op_nodes (items (GetPydotGraph ?g None (lit ''LR'') None False [0, 2]))"
  have p: "marked_list_of ascii_env (cli 1 ''0_2'') = Inr [0, 2]"
    by (simp add: marked_list_of_def ascii_env_def cli_def lit_def py_int_def)
  have l: "0 < length (node ?g)" "1 < length (node ?g)" "2 < length (node ?g)"
    by simp_all
  have m: "int 0 \<in> set [0, 2]" "int 1 \<notin> set [0, 2]" "int 2 \<in> set [0, 2]"
    by simp_all
  have a: "has_style (?ns ! 0) OP_STYLE_1 \<and> \<not> has_style (?ns ! 0) OP_STYLE"
    using highlighted_iff_marked [OF l(1), of None "lit ''LR''" False "[0, 2]"] m(1)
    unfolding Let_def by blast
  have b: "has_style (?ns ! 1) OP_STYLE \<and> \<not> has_style (?ns ! 1) OP_STYLE_1"
    using highlighted_iff_marked [OF l(2), of None "lit ''LR''" False "[0, 2]"] m(2)
    unfolding Let_def by blast
  have c: "has_style (?ns ! 2) OP_STYLE_1 \<and> \<not> has_style (?ns ! 2) OP_STYLE"
    using highlighted_iff_marked [OF l(3), of None "lit ''LR''" False "[0, 2]"] m(3)
    unfolding Let_def by blast
  from p a b c show ?thesis
    unfolding Let_def by blast
qed

section \<open>The highlight list of the command line\<close>

lemma py_int_empty: "py_int sp dec [] = None"
  by (simp add: py_int_def)

lemma those_map_None: "x \<in> set xs \<Longrightarrow> f x = None \<Longrightarrow> those (map f xs) = None"
  by (induction xs) (auto split: option.splits)

text \<open>
  C8. When \<open>--marked\<close> is not 0 and a token of \<open>--marked_list\<close> (between the underscores)
  is empty or is not an integer for \<open>int\<close>, the run ends with \<open>ValueError\<close> and its trace is
  empty: no input file was opened, no model parsed, no graph built, nothing written.
\<close>

theorem malformed_marked_list_fatal:
  assumes "arg_marked a \<noteq> 0"
    and "t \<in> set (split 95 (arg_marked_list a))"
    and "t = [] \<or> py_int (isspace w) (todecimal w) t = None"
  shows "main w a = (Inl ValueError, [])"
proof -
  from assms(3) have "py_int (isspace w) (todecimal w) t = None"
    by (auto simp: py_int_empty)
  with assms(2) have "those (map (py_int (isspace w) (todecimal w)) (split 95 (arg_marked_list a))) = None"
    by (rule those_map_None)
  with assms(1) show ?thesis
    by (simp add: main_def marked_list_of_def)
qed

text \<open>The lists \<open>0__2\<close>, with an empty token, and \<open>0_x\<close>.\<close>

theorem malformed_marked_list_fatal_witness:
  "arg_marked (cli 1 ''0__2'') \<noteq> 0 \<and> [] \<in> set (split 95 (arg_marked_list (cli 1 ''0__2''))) \<and>
   main ascii_env (cli 1 ''0__2'') = (Inl ValueError, []) \<and>
   lit ''x'' \<in> set (split 95 (arg_marked_list (cli 1 ''0_x''))) \<and>
   py_int (isspace ascii_env) (todecimal ascii_env) (lit ''x'') = None \<and>
   main ascii_env (cli 1 ''0_x'') = (Inl ValueError, [])"
proof -
  have 1: "arg_marked (cli 1 ''0__2'') \<noteq> 0" "arg_marked (cli 1 ''0_x'') \<noteq> 0"
    by (simp_all add: cli_def)
  have 2: "[] \<in> set (split 95 (arg_marked_list (cli 1 ''0__2'')))"
    by (simp add: cli_def lit_def)
  have 3: "lit ''x'' \<in> set (split 95 (arg_marked_list (cli 1 ''0_x'')))"
    by (simp add: cli_def lit_def)
  have 4: "py_int (isspace ascii_env) (todecimal ascii_env) (lit ''x'') = None"
    by (simp add: py_int_def ascii_env_def lit_def)
  from malformed_marked_list_fatal [OF 1(1) 2, of ascii_env]
    malformed_marked_list_fatal [OF 1(2) 3, of ascii_env] 1 2 3 4
  show ?thesis by simp
qed

section \<open>A value written again\<close>

lemma digits_value_str: "digits_value (str n) = n"
proof (induction n rule: str.induct)
  case (1 n)
  show ?case
  proof (cases "n < 10")
    case True
    then show ?thesis by (subst str.simps) (simp add: digits_value_def)
  next
    case False
    with 1 have "digits_value (str (n div 10)) = n div 10" by simp
    with False show ?thesis
      by (subst str.simps) (simp add: digits_value_def)
  qed
qed

lemma str_inj: "str a = str b \<Longrightarrow> a = b"
  by (metis digits_value_str)

lemma str_digits: "c \<in> set (str n) \<Longrightarrow> 48 \<le> c \<and> c \<le> 57"
proof (induction n rule: str.induct)
  case (1 n)
  show ?case
  proof (cases "n < 10")
    case True
    with "1.prems" show ?thesis by (subst (asm) str.simps) auto
  next
    case False
    with 1 show ?thesis by (subst (asm) (2) str.simps) auto
  qed
qed

lemma escape_body_plain: "\<forall>c \<in> set s. \<not> ESCAPE_ASCII c \<Longrightarrow> escape_body s = s"
  by (induction s) (simp_all add: escape_body_def)

lemma escape_body_str: "escape_body (str n) = str n"
  by (rule escape_body_plain) (auto dest!: str_digits simp: ESCAPE_ASCII_def)

lemma escape_label_append: "escape_label (a @ b) = [34] @ escape_body a @ escape_body b @ [34]"
  by (simp add: escape_label_def json_dumps_def encode_basestring_ascii_def escape_body_def)

lemma value_node_name_inj: "get_name (value_node x c) = get_name (value_node x c') \<Longrightarrow> c = c'"
  by (simp add: value_node_eq escape_label_append escape_body_str str_inj)

lemma value_node_label: "map_of (get_attributes (value_node x c)) (lit ''label'') = Some (escape_label x)"
  by (simp add: value_node_eq)

lemma the_output_count_ge: "pydot_node_counts st x \<le> the_output_count st x"
  by (simp add: the_output_count_def)

lemma grows_refl: "grows x st st"
  by (simp add: grows_def)

lemma grows_trans: "grows x a b \<Longrightarrow> grows x b c \<Longrightarrow> grows x a c"
  by (auto simp: grows_def)

lemma input_step_grows: "grows x st (input_step n st y)"
  by (auto simp: grows_def input_step_counts input_step_nodes input_step_items)

lemma output_step_grows: "grows x st (output_step n st y)"
  by (auto simp: grows_def output_step_counts output_step_nodes output_step_items the_output_count_ge)

lemma inputs_grows: "grows x st (foldl (input_step n) st ys)"
proof (induction ys arbitrary: st)
  case Nil
  show ?case by (simp add: grows_refl)
next
  case (Cons y ys)
  from grows_trans [OF input_step_grows Cons] show ?case by simp
qed

lemma outputs_grows: "grows x st (foldl (output_step n) st ys)"
proof (induction ys arbitrary: st)
  case Nil
  show ?case by (simp add: grows_refl)
next
  case (Cons y ys)
  from grows_trans [OF output_step_grows Cons] show ?case by simp
qed

lemma add_op_node_grows: "grows x st (st\<lparr>pydot_graph := add_node n (pydot_graph st)\<rparr>)"
  by (auto simp: grows_def add_node_def)

lemma op_step_unfold:
  "op_step np ml st (i, op) =
     foldl (output_step (styled np ml (i, op)))
       (foldl (input_step (styled np ml (i, op)))
          (st\<lparr>pydot_graph := add_node (styled np ml (i, op)) (pydot_graph st)\<rparr>) (input op))
       (output' op)"
  by (simp add: op_step_def styled_def Let_def)

lemma op_step_grows: "grows x st (op_step np ml st iop)"
proof (cases iop)
  case (Pair i op)
  show ?thesis
    unfolding Pair op_step_unfold
    by (rule grows_trans [OF add_op_node_grows grows_trans [OF inputs_grows outputs_grows]])
qed

lemma ops_grows: "grows x st (foldl (op_step np ml) st iops)"
proof (induction iops arbitrary: st)
  case Nil
  show ?case by (simp add: grows_refl)
next
  case (Cons iop iops)
  from grows_trans [OF op_step_grows Cons] show ?case by simp
qed

lemma outputs_written:
  "x \<in> set ys \<Longrightarrow> written n x st (foldl (output_step n) st ys)"
proof (induction ys rule: rev_induct)
  case Nil
  then show ?case by simp
next
  case (snoc y ys)
  let ?m = "foldl (output_step n) st ys"
  have g: "grows x st ?m" by (rule outputs_grows)
  show ?case
  proof (cases "y = x")
    case True
    have "pydot_nodes st x \<noteq> None \<longrightarrow> pydot_node_counts st x < the_output_count ?m x"
      using g by (auto simp: grows_def the_output_count_def)
    then show ?thesis
      by (simp add: True written_def output_step_nodes output_step_counts output_step_items)
  next
    case False
    with snoc have "written n x st ?m" by simp
    with False show ?thesis
      by (simp add: written_def output_step_nodes output_step_counts output_step_items)
  qed
qed

lemma op_step_written:
  assumes "x \<in> set (output' op)"
  shows "written (styled np ml (i, op)) x st (op_step np ml st (i, op))"
proof -
  let ?n = "styled np ml (i, op)"
  let ?s1 = "foldl (input_step ?n) (st\<lparr>pydot_graph := add_node ?n (pydot_graph st)\<rparr>) (input op)"
  have g: "grows x st ?s1"
    by (rule grows_trans [OF add_op_node_grows inputs_grows])
  from outputs_written [OF assms, of ?n ?s1] g show ?thesis
    unfolding op_step_unfold by (auto simp: written_def grows_def)
qed

lemma rewritten_value_steps:
  assumes "x \<in> set (output' A)" and "x \<in> set (output' B)"
  shows "(let stA = op_step np ml st (i, A);
              stB = op_step np ml (foldl (op_step np ml) stA mid) (k, B);
              vA = value_node x (pydot_node_counts stA x);
              vB = value_node x (pydot_node_counts stB x)
          in pydot_nodes stA x = Some vA \<and> pydot_nodes stB x = Some vB \<and>
             pydot_node_counts stA x < pydot_node_counts stB x \<and>
             get_name vA \<noteq> get_name vB \<and>
             map_of (get_attributes vA) (lit ''label'') = Some (escape_label x) \<and>
             map_of (get_attributes vB) (lit ''label'') = Some (escape_label x) \<and>
             AddEdge (styled np ml (i, A)) vA \<in> set (items (pydot_graph stA)) \<and>
             AddEdge (styled np ml (k, B)) vB \<in> set (items (pydot_graph stB))) \<and>
         (let c = (if pydot_nodes st0 y \<noteq> None then pydot_node_counts st0 y + 1
                   else pydot_node_counts st0 y);
              v = value_node y c;
              st1 = output_step n st0 y
          in pydot_node_counts st1 y = c \<and> pydot_nodes st1 y = Some v \<and>
             get_name v = escape_label (y @ str c) \<and>
             items (pydot_graph st1) = items (pydot_graph st0) @ [AddNode v, AddEdge n v])"
proof -
  define stA where "stA = op_step np ml st (i, A)"
  define m where "m = foldl (op_step np ml) stA mid"
  define stB where "stB = op_step np ml m (k, B)"
  have wA: "written (styled np ml (i, A)) x st stA"
    unfolding stA_def by (rule op_step_written [OF assms(1)])
  have wB: "written (styled np ml (k, B)) x m stB"
    unfolding stB_def by (rule op_step_written [OF assms(2)])
  have g: "grows x stA m"
    unfolding m_def by (rule ops_grows)
  from wA have "pydot_nodes stA x \<noteq> None" by (simp add: written_def)
  with g have "pydot_nodes m x \<noteq> None" and le: "pydot_node_counts stA x \<le> pydot_node_counts m x"
    by (simp_all add: grows_def)
  with wB have lt: "pydot_node_counts stA x < pydot_node_counts stB x"
    by (simp add: written_def)
  then have ne: "get_name (value_node x (pydot_node_counts stA x)) \<noteq>
                 get_name (value_node x (pydot_node_counts stB x))"
    using value_node_name_inj [of x "pydot_node_counts stA x" "pydot_node_counts stB x"] by auto
  have 1: "pydot_nodes stA x = Some (value_node x (pydot_node_counts stA x))"
    "AddEdge (styled np ml (i, A)) (value_node x (pydot_node_counts stA x)) \<in> set (items (pydot_graph stA))"
    using wA by (simp_all add: written_def)
  have 2: "pydot_nodes stB x = Some (value_node x (pydot_node_counts stB x))"
    "AddEdge (styled np ml (k, B)) (value_node x (pydot_node_counts stB x)) \<in> set (items (pydot_graph stB))"
    using wB by (simp_all add: written_def)
  have step: "(let c = (if pydot_nodes st0 y \<noteq> None then pydot_node_counts st0 y + 1
                   else pydot_node_counts st0 y);
              v = value_node y c;
              st1 = output_step n st0 y
          in pydot_node_counts st1 y = c \<and> pydot_nodes st1 y = Some v \<and>
             get_name v = escape_label (y @ str c) \<and>
             items (pydot_graph st1) = items (pydot_graph st0) @ [AddNode v, AddEdge n v])"
    by (simp add: Let_def output_step_counts output_step_nodes output_step_items
        the_output_count_def value_node_eq)
  from 1 2 lt ne step show ?thesis
    unfolding Let_def stA_def [symmetric] m_def [symmetric] stB_def [symmetric]
    by (simp add: value_node_label)
qed

lemma extends_refl: "extends st st"
  by (simp add: extends_def)

lemma extends_trans: "extends a b \<Longrightarrow> extends b c \<Longrightarrow> extends a c"
  by (auto simp: extends_def)

lemma input_step_extends: "extends st (input_step n st y)"
  by (simp add: extends_def input_step_items)

lemma output_step_extends: "extends st (output_step n st y)"
  by (simp add: extends_def output_step_items)

lemma inputs_extends: "extends st (foldl (input_step n) st ys)"
proof (induction ys arbitrary: st)
  case Nil
  show ?case by (simp add: extends_refl)
next
  case (Cons y ys)
  from extends_trans [OF input_step_extends Cons] show ?case by simp
qed

lemma outputs_extends: "extends st (foldl (output_step n) st ys)"
proof (induction ys arbitrary: st)
  case Nil
  show ?case by (simp add: extends_refl)
next
  case (Cons y ys)
  from extends_trans [OF output_step_extends Cons] show ?case by simp
qed

lemma add_op_node_extends: "extends st (st\<lparr>pydot_graph := add_node n (pydot_graph st)\<rparr>)"
  by (simp add: extends_def add_node_def)

lemma op_step_extends: "extends st (op_step np ml st iop)"
proof (cases iop)
  case (Pair i op)
  show ?thesis
    unfolding Pair op_step_unfold
    by (rule extends_trans [OF add_op_node_extends extends_trans [OF inputs_extends outputs_extends]])
qed

lemma ops_extends: "extends st (foldl (op_step np ml) st iops)"
proof (induction iops arbitrary: st)
  case Nil
  show ?case by (simp add: extends_refl)
next
  case (Cons iop iops)
  from extends_trans [OF op_step_extends Cons] show ?case by simp
qed

lemma extends_writes: "extends a b \<Longrightarrow> writes n x b c \<Longrightarrow> writes n x a c"
proof -
  assume "extends a b" and "writes n x b c"
  then obtain ext i1 i2 where "items (pydot_graph b) = items (pydot_graph a) @ ext"
    and "items (pydot_graph c) = items (pydot_graph b) @ i1 @
        [AddNode (value_node x (pydot_node_counts c x)),
         AddEdge n (value_node x (pydot_node_counts c x))] @ i2"
    by (auto simp: extends_def writes_def)
  then have "items (pydot_graph c) = items (pydot_graph a) @ (ext @ i1) @
        [AddNode (value_node x (pydot_node_counts c x)),
         AddEdge n (value_node x (pydot_node_counts c x))] @ i2"
    by simp
  then show ?thesis unfolding writes_def by blast
qed

lemma outputs_writes: "x \<in> set ys \<Longrightarrow> writes n x st (foldl (output_step n) st ys)"
proof (induction ys rule: rev_induct)
  case Nil
  then show ?case by simp
next
  case (snoc y ys)
  let ?m = "foldl (output_step n) st ys"
  show ?case
  proof (cases "y = x")
    case True
    have "writes n x ?m (output_step n ?m x)"
      unfolding writes_def
      by (rule exI [of _ "[]"], rule exI [of _ "[]"])
        (simp add: output_step_items output_step_counts)
    from extends_writes [OF outputs_extends this] show ?thesis
      by (simp add: True)
  next
    case False
    with snoc have "writes n x st ?m" by simp
    then obtain i1 i2 where "items (pydot_graph ?m) =
        items (pydot_graph st) @ i1 @
        [AddNode (value_node x (pydot_node_counts ?m x)),
         AddEdge n (value_node x (pydot_node_counts ?m x))] @ i2"
      unfolding writes_def by blast
    then have "items (pydot_graph (output_step n ?m y)) =
        items (pydot_graph st) @ i1 @
        [AddNode (value_node x (pydot_node_counts (output_step n ?m y) x)),
         AddEdge n (value_node x (pydot_node_counts (output_step n ?m y) x))] @
        (i2 @ [AddNode (value_node y (the_output_count ?m y)),
               AddEdge n (value_node y (the_output_count ?m y))])"
      using False by (simp add: output_step_items output_step_counts)
    then show ?thesis
      unfolding writes_def by (simp del: append_assoc) blast
  qed
qed

lemma op_step_writes:
  assumes "x \<in> set (output' op)"
  shows "writes (styled np ml (i, op)) x st (op_step np ml st (i, op))"
proof -
  let ?n = "styled np ml (i, op)"
  let ?s1 = "foldl (input_step ?n) (st\<lparr>pydot_graph := add_node ?n (pydot_graph st)\<rparr>) (input op)"
  have e: "extends st ?s1"
    by (rule extends_trans [OF add_op_node_extends inputs_extends])
  from extends_writes [OF e outputs_writes [OF assms, of ?n ?s1]] show ?thesis
    unfolding op_step_unfold .
qed

lemma GetPydotGraph_run:
  "GetPydotGraph graph nm rd np e ml = pydot_graph (run_loop (producer_of np e) ml nm rd (node graph))"
  by (simp add: GetPydotGraph_def run_loop_def producer_of_def)

lemma run_loop_snoc:
  "run_loop np ml nm rd (ops @ [op]) = op_step np ml (run_loop np ml nm rd ops) (length ops, op)"
  by (simp add: run_loop_def enumerate_append_eq)

lemma run_loop_append:
  "run_loop np ml nm rd (ops @ rest) =
     foldl (op_step np ml) (run_loop np ml nm rd ops) (enumerate (length ops) rest)"
  by (simp add: run_loop_def enumerate_append_eq)

text \<open>
  C1. In \<open>GetPydotGraph\<close>, for every operator sequence in which an operator \<open>A\<close> writes the
  value name \<open>x\<close> and a later operator \<open>B\<close> writes \<open>x\<close> again: the graph returned is the graph
  of the loop over the operators; after \<open>A\<close> the node of \<open>x\<close> is the value node of \<open>x\<close> at its
  counter, and so it is after \<open>B\<close>; the counter after \<open>B\<close> is larger, so the two identities
  (the escaped concatenation of the name and the counter) differ, while both nodes carry
  the escaped name as label; and the returned graph holds the node written by \<open>A\<close> followed
  by the edge from the operator node of \<open>A\<close> to it, and later the node written by \<open>B\<close>
  followed by the edge from the operator node of \<open>B\<close> to it. And for every output step: when
  a node exists under the name, the counter is incremented before the new node is created
  with it, the new node becomes the current node of the name, and the node and then the
  edge from the operator node to it are added to the graph.
\<close>

theorem rewritten_value_fresh_identity:
  assumes g: "node graph = pre @ A # mid @ B # post"
    and xA: "x \<in> set (output' A)" and xB: "x \<in> set (output' B)"
  shows "(let p = producer_of np e;
              stA = run_loop p ml nm rd (pre @ [A]);
              stB = run_loop p ml nm rd (pre @ A # mid @ [B]);
              vA = value_node x (pydot_node_counts stA x);
              vB = value_node x (pydot_node_counts stB x);
              nA = styled p ml (length pre, A);
              nB = styled p ml (length pre + 1 + length mid, B)
          in GetPydotGraph graph nm rd np e ml = pydot_graph (run_loop p ml nm rd (node graph)) \<and>
             pydot_nodes stA x = Some vA \<and> pydot_nodes stB x = Some vB \<and>
             pydot_node_counts stA x < pydot_node_counts stB x \<and>
             get_name vA = escape_label (x @ str (pydot_node_counts stA x)) \<and>
             get_name vB = escape_label (x @ str (pydot_node_counts stB x)) \<and>
             get_name vA \<noteq> get_name vB \<and>
             map_of (get_attributes vA) (lit ''label'') = Some (escape_label x) \<and>
             map_of (get_attributes vB) (lit ''label'') = Some (escape_label x) \<and>
             (\<exists>i1 i2 i3. items (GetPydotGraph graph nm rd np e ml) =
                i1 @ [AddNode vA, AddEdge nA vA] @ i2 @ [AddNode vB, AddEdge nB vB] @ i3)) \<and>
         (let c = (if pydot_nodes st0 y \<noteq> None then pydot_node_counts st0 y + 1
                   else pydot_node_counts st0 y);
              v = value_node y c;
              st1 = output_step n st0 y
          in pydot_node_counts st1 y = c \<and> pydot_nodes st1 y = Some v \<and>
             get_name v = escape_label (y @ str c) \<and>
             items (pydot_graph st1) = items (pydot_graph st0) @ [AddNode v, AddEdge n v])"
proof -
  define p where "p = producer_of np e"
  define stP where "stP = run_loop p ml nm rd pre"
  define stA where "stA = run_loop p ml nm rd (pre @ [A])"
  define k where "k = length pre + 1 + length mid"
  define stM where "stM = foldl (op_step p ml) stA (enumerate (Suc (length pre)) mid)"
  define stB where "stB = run_loop p ml nm rd (pre @ A # mid @ [B])"
  define fin where "fin = run_loop p ml nm rd (node graph)"
  define vA where "vA = value_node x (pydot_node_counts stA x)"
  define vB where "vB = value_node x (pydot_node_counts stB x)"
  define nA where "nA = styled p ml (length pre, A)"
  define nB where "nB = styled p ml (k, B)"
  have sA: "stA = op_step p ml stP (length pre, A)"
    by (simp add: stA_def stP_def run_loop_snoc)
  have sM: "stM = run_loop p ml nm rd ((pre @ [A]) @ mid)"
    unfolding run_loop_append [of p ml nm rd "pre @ [A]" mid] stM_def stA_def by simp
  have sB: "stB = op_step p ml stM (k, B)"
  proof -
    have "stB = run_loop p ml nm rd (((pre @ [A]) @ mid) @ [B])"
      by (simp add: stB_def)
    also have "\<dots> = op_step p ml stM (k, B)"
      unfolding run_loop_snoc sM [symmetric] by (simp add: k_def)
    finally show ?thesis .
  qed
  have l: "length (pre @ A # mid @ [B]) = Suc k"
    by (simp add: k_def)
  have sF: "fin = foldl (op_step p ml) stB (enumerate (Suc k) post)"
  proof -
    have "fin = run_loop p ml nm rd ((pre @ A # mid @ [B]) @ post)"
      by (simp add: fin_def g)
    also have "\<dots> = foldl (op_step p ml) stB (enumerate (Suc k) post)"
      unfolding stB_def l [symmetric] by (rule run_loop_append)
    finally show ?thesis .
  qed
  from rewritten_value_steps [OF xA xB, of p ml stP "length pre" "enumerate (Suc (length pre)) mid" k st0 y n]
  have facts: "pydot_nodes stA x = Some vA" "pydot_nodes stB x = Some vB"
    "pydot_node_counts stA x < pydot_node_counts stB x"
    "get_name vA \<noteq> get_name vB"
    "map_of (get_attributes vA) (lit ''label'') = Some (escape_label x)"
    "map_of (get_attributes vB) (lit ''label'') = Some (escape_label x)"
    and step: "(let c = (if pydot_nodes st0 y \<noteq> None then pydot_node_counts st0 y + 1
                   else pydot_node_counts st0 y);
              v = value_node y c;
              st1 = output_step n st0 y
          in pydot_node_counts st1 y = c \<and> pydot_nodes st1 y = Some v \<and>
             get_name v = escape_label (y @ str c) \<and>
             items (pydot_graph st1) = items (pydot_graph st0) @ [AddNode v, AddEdge n v])"
    unfolding Let_def sA [symmetric] stM_def [symmetric] sB [symmetric] vA_def [symmetric] vB_def [symmetric]
    by blast+
  have names: "get_name vA = escape_label (x @ str (pydot_node_counts stA x))"
    "get_name vB = escape_label (x @ str (pydot_node_counts stB x))"
    by (simp_all add: vA_def vB_def value_node_eq)
  from op_step_writes [OF xA, of p ml "length pre" stP]
  obtain a1 a2 where iA: "items (pydot_graph stA) =
      items (pydot_graph stP) @ a1 @ [AddNode vA, AddEdge nA vA] @ a2"
    unfolding writes_def sA [symmetric] vA_def [symmetric] nA_def [symmetric] by blast
  from ops_extends [of stA p ml "enumerate (Suc (length pre)) mid"]
  obtain e2 where iM: "items (pydot_graph stM) = items (pydot_graph stA) @ e2"
    unfolding extends_def stM_def [symmetric] by blast
  from op_step_writes [OF xB, of p ml k stM]
  obtain b1 b2 where iB: "items (pydot_graph stB) =
      items (pydot_graph stM) @ b1 @ [AddNode vB, AddEdge nB vB] @ b2"
    unfolding writes_def sB [symmetric] vB_def [symmetric] nB_def [symmetric] by blast
  from ops_extends [of stB p ml "enumerate (Suc k) post"]
  obtain e3 where iF: "items (pydot_graph fin) = items (pydot_graph stB) @ e3"
    unfolding extends_def sF [symmetric] by blast
  have "items (pydot_graph fin) =
      (items (pydot_graph stP) @ a1) @ [AddNode vA, AddEdge nA vA] @ (a2 @ e2 @ b1) @
      [AddNode vB, AddEdge nB vB] @ (b2 @ e3)"
    by (simp add: iF iB iM iA)
  then have ex: "\<exists>i1 i2 i3. items (pydot_graph fin) =
      i1 @ [AddNode vA, AddEdge nA vA] @ i2 @ [AddNode vB, AddEdge nB vB] @ i3"
    by blast
  have G: "GetPydotGraph graph nm rd np e ml = pydot_graph fin"
    by (simp add: GetPydotGraph_run fin_def p_def)
  show ?thesis
    unfolding Let_def p_def [symmetric] stA_def [symmetric] stB_def [symmetric]
      vA_def [symmetric] vB_def [symmetric] k_def [symmetric] nA_def [symmetric] nB_def [symmetric]
      fin_def [symmetric] G
    using facts names ex step [unfolded Let_def] by blast
qed

text \<open>
  The graph of two operators: the first produces z, with the identity \<open>z0\<close>; the second
  consumes z, through an edge from \<open>z0\<close>, and produces z again, with the identity \<open>z1\<close>.
\<close>

theorem rewritten_value_fresh_identity_witness:
  "node two_writes = [] @ relu_op # [] @ inplace_op # [] \<and>
   lit ''z'' \<in> set (output' relu_op) \<and> lit ''z'' \<in> set (output' inplace_op) \<and>
   (let p = producer_of None False;
        stA = run_loop p [] None (lit ''LR'') ([] @ [relu_op]);
        stB = run_loop p [] None (lit ''LR'') ([] @ relu_op # [] @ [inplace_op])
    in pydot_node_counts stA (lit ''z'') = 0 \<and> pydot_node_counts stB (lit ''z'') = 1 \<and>
       pydot_nodes stA (lit ''z'') = Some (blob ''z0'' ''z'') \<and>
       pydot_nodes stB (lit ''z'') = Some (blob ''z1'' ''z'') \<and>
       get_name (blob ''z0'' ''z'') \<noteq> get_name (blob ''z1'' ''z'')) \<and>
   items (GetPydotGraph two_writes None (lit ''LR'') None False []) =
     (let n0 = styled (ReallyGetOpNode False) [] (0, relu_op);
          n1 = styled (ReallyGetOpNode False) [] (1, inplace_op);
          x0 = blob ''x0'' ''x''; z0 = blob ''z0'' ''z''; z1 = blob ''z1'' ''z''
      in [AddNode n0, AddNode x0, AddEdge x0 n0, AddNode z0, AddEdge n0 z0,
          AddNode n1, AddNode z0, AddEdge z0 n1, AddNode z1, AddEdge n1 z1])"
proof -
  define p where "p = producer_of None False"
  define stA where "stA = run_loop p [] None (lit ''LR'') ([] @ [relu_op])"
  define stB where "stB = run_loop p [] None (lit ''LR'') ([] @ relu_op # [] @ [inplace_op])"
  have g: "node two_writes = [] @ relu_op # [] @ inplace_op # []"
    by (simp add: two_writes_def)
  have h: "lit ''z'' \<in> set (output' relu_op)" "lit ''z'' \<in> set (output' inplace_op)"
    by (simp_all add: relu_op_def inplace_op_def)
  have cA: "pydot_node_counts stA (lit ''z'') = 0"
    by (simp add: stA_def p_def run_loop_def producer_of_def op_step_def init_builder_def
        input_step_def output_step_def relu_op_def Let_def lit_def enumerate_eq_zip)
  have cB: "pydot_node_counts stB (lit ''z'') = 1"
    by (simp add: stB_def p_def run_loop_def producer_of_def op_step_def init_builder_def
        input_step_def output_step_def relu_op_def inplace_op_def Let_def lit_def enumerate_eq_zip)
  have v: "value_node (lit ''z'') 0 = blob ''z0'' ''z''" "value_node (lit ''z'') 1 = blob ''z1'' ''z''"
    by (simp_all add: eval_defs blob_def quoted_def)
  from rewritten_value_fresh_identity [OF g h, of None False "[]" None "lit ''LR''"]
  have "pydot_nodes stA (lit ''z'') = Some (blob ''z0'' ''z'') \<and>
        pydot_nodes stB (lit ''z'') = Some (blob ''z1'' ''z'') \<and>
        get_name (blob ''z0'' ''z'') \<noteq> get_name (blob ''z1'' ''z'')"
    unfolding Let_def p_def [symmetric] stA_def [symmetric] stB_def [symmetric] cA cB v by blast
  moreover have "items (GetPydotGraph two_writes None (lit ''LR'') None False []) =
     (let n0 = styled (ReallyGetOpNode False) [] (0, relu_op);
          n1 = styled (ReallyGetOpNode False) [] (1, inplace_op);
          x0 = blob ''x0'' ''x''; z0 = blob ''z0'' ''z''; z1 = blob ''z1'' ''z''
      in [AddNode n0, AddNode x0, AddEdge x0 n0, AddNode z0, AddEdge n0 z0,
          AddNode n1, AddNode z0, AddEdge z0 n1, AddNode z1, AddEdge n1 z1])"
    by (simp add: eval_defs two_writes_def relu_op_def inplace_op_def styled_def blob_def quoted_def)
  ultimately show ?thesis
    using g h cA cB
    unfolding Let_def p_def [symmetric] stA_def [symmetric] stB_def [symmetric] by blast
qed

section \<open>Escaping a label\<close>

lemma and_3ff: "(m::nat) AND 0x3ff = m mod 1024"
proof -
  have "(0x3ff::nat) = mask 10" by (simp add: mask_eq_exp_minus_1)
  then have "m AND 0x3ff = take_bit 10 m" by (simp add: take_bit_eq_mask)
  then show ?thesis by (simp add: take_bit_eq_mod)
qed

lemma or_high_low:
  assumes "x < 1024"
  shows "push_bit 10 (h::nat) OR x = h * 1024 + x"
proof -
  have x: "take_bit 10 x = x"
    using assms by (simp add: take_bit_nat_eq_self)
  have "push_bit 10 h AND take_bit 10 x = 0"
    by (rule bit_eqI) (auto simp: bit_and_iff bit_push_bit_iff bit_take_bit_iff)
  then have "push_bit 10 h + x = push_bit 10 h OR x"
    using x by (simp add: disjunctive_add_eq_or)
  then show ?thesis by (simp add: push_bit_eq_mult)
qed

lemma surrogates:
  "(0xd800::nat) OR (drop_bit 10 m AND 0x3ff) = 0xd800 + m div 1024 mod 1024"
  "(0xdc00::nat) OR (m AND 0x3ff) = 0xdc00 + m mod 1024"
  using or_high_low [of "m div 1024 mod 1024" 54] or_high_low [of "m mod 1024" 55]
  by (simp_all add: and_3ff drop_bit_eq_div push_bit_eq_mult)

lemma unhex_hexdigit: "d < 16 \<Longrightarrow> unhex (hexdigit d) = d"
  by (simp add: unhex_def hexdigit_def)

lemma digits4: "(n::nat) < 65536 \<Longrightarrow>
   ((n div 4096 mod 16 * 16 + n div 256 mod 16) * 16 + n div 16 mod 16) * 16 + n mod 16 = n"
proof -
  assume a: "n < 65536"
  define r0 where "r0 = n mod 16"
  define q1 where "q1 = n div 16"
  define r1 where "r1 = q1 mod 16"
  define q2 where "q2 = q1 div 16"
  define r2 where "r2 = q2 mod 16"
  define q3 where "q3 = q2 div 16"
  have 1: "n = q1 * 16 + r0" by (simp add: q1_def r0_def)
  have 2: "q1 = q2 * 16 + r1" by (simp add: q2_def r1_def)
  have 3: "q2 = q3 * 16 + r2" by (simp add: q3_def r2_def)
  have "q3 = n div 4096" by (simp add: q3_def q2_def q1_def div_mult2_eq [symmetric])
  with a have 4: "q3 < 16" by simp
  have e: "n div 256 = q2" "n div 4096 = q3"
    by (simp_all add: q3_def q2_def q1_def div_mult2_eq [symmetric])
  have 5: "q3 mod 16 = q3" using 4 by simp
  have "((q3 * 16 + r2) * 16 + r1) * 16 + r0 = n"
    using 1 2 3 by simp
  then show ?thesis
    unfolding e 5 r2_def [symmetric] q1_def [symmetric] r1_def [symmetric] r0_def [symmetric] .
qed

lemma hexval_hex04: "n < 65536 \<Longrightarrow> hex04 n = [h1, h2, h3, h4] \<Longrightarrow> hexval h1 h2 h3 h4 = n"
  using digits4 [of n] by (auto simp: hex04_def hexval_def unhex_hexdigit)

lemma hexdigit_plain: "hexdigit d \<noteq> 34" "hexdigit d \<noteq> 92"
  by (simp_all add: hexdigit_def)

lemma prepend_prepend: "prepend p (prepend q res) = prepend (p @ q) res"
  by (simp add: prepend_def option.map_comp comp_def)

lemma prepend_Some: "prepend p (Some (b, r)) = Some (p @ b, r)"
  by (simp add: prepend_def)

lemma escape_body_Cons: "escape_body (c # s) = enc c @ escape_body s"
  by (simp add: escape_body_def enc_def)

lemma escape_label_body: "escape_label s = [34] @ escape_body s @ [34]"
  by (simp add: escape_label_def json_dumps_def encode_basestring_ascii_def escape_body_def)

lemma lex_plain:
  "c \<noteq> 34 \<Longrightarrow> c \<noteq> 92 \<Longrightarrow> lex_quoted (c # t) = prepend [c] (lex_quoted t)"
  by (cases t) (simp_all add: prepend_def)

lemma lex_escape: "lex_quoted (92 # x # t) = prepend [92, x] (lex_quoted t)"
  by simp

lemma lex_hex04: "lex_quoted (hex04 n @ t) = prepend (hex04 n) (lex_quoted t)"
  by (simp add: hex04_def lex_plain hexdigit_plain prepend_prepend del: lex_quoted.simps)

lemma lex_u: "lex_quoted ([92, 117] @ hex04 n @ t) = prepend ([92, 117] @ hex04 n) (lex_quoted t)"
  using lex_escape [of 117 "hex04 n @ t"]
  by (simp add: lex_hex04 prepend_prepend del: lex_quoted.simps)

lemma lex_u2:
  "lex_quoted ([92, 117] @ hex04 a @ [92, 117] @ hex04 b @ t) =
     prepend ([92, 117] @ hex04 a @ [92, 117] @ hex04 b) (lex_quoted t)"
  using lex_u [of a "[92, 117] @ hex04 b @ t"] lex_u [of b t]
  by (simp add: prepend_prepend del: lex_quoted.simps)

lemma lex_enc: "lex_quoted (enc c @ t) = prepend (enc c) (lex_quoted t)"
proof (cases "ESCAPE_ASCII c")
  case False
  then show ?thesis
    by (simp add: enc_def ESCAPE_ASCII_def lex_plain)
next
  case True
  show ?thesis
    using True lex_u [of c t] lex_u2 [of _ _ t] lex_escape [of _ t]
    by (simp add: enc_def replace_def Let_def del: lex_quoted.simps)
qed

lemma lex_body: "lex_quoted (escape_body s @ [34] @ rest) = Some (escape_body s, rest)"
proof (induction s)
  case Nil
  show ?case by (cases rest) (simp_all add: escape_body_def)
next
  case (Cons c s)
  have "lex_quoted (enc c @ escape_body s @ [34] @ rest) = prepend (enc c) (Some (escape_body s, rest))"
    using lex_enc [of c "escape_body s @ [34] @ rest"] Cons by simp
  then show ?case
    by (simp add: escape_body_Cons prepend_Some del: lex_quoted.simps)
qed

lemma hexdigit_range: "d < 16 \<Longrightarrow> 48 \<le> hexdigit d \<and> hexdigit d \<le> 102"
  by (simp add: hexdigit_def)

lemma hex04_range: "x \<in> set (hex04 n) \<Longrightarrow> 48 \<le> x \<and> x \<le> 102"
  using hexdigit_range [of "n div 4096 mod 16"] hexdigit_range [of "n div 256 mod 16"]
    hexdigit_range [of "n div 16 mod 16"] hexdigit_range [of "n mod 16"]
  by (auto simp: hex04_def)

lemma enc_printable: "x \<in> set (enc c) \<Longrightarrow> 32 \<le> x \<and> x \<le> 126"
proof (cases "ESCAPE_ASCII c")
  case False
  assume "x \<in> set (enc c)"
  with False show ?thesis by (simp add: enc_def ESCAPE_ASCII_def)
next
  case True
  assume "x \<in> set (enc c)"
  with True have "x = 92 \<or> x = 34 \<or> x = 98 \<or> x = 102 \<or> x = 110 \<or> x = 114 \<or> x = 116 \<or> x = 117 \<or>
      (\<exists>n. x \<in> set (hex04 n))"
    by (auto simp: enc_def replace_def Let_def split: if_splits)
  then show ?thesis
    by (auto dest: hex04_range)
qed

lemma escape_body_Nil: "escape_body [] = []"
  by (simp add: escape_body_def)

lemma escape_body_printable: "x \<in> set (escape_body s) \<Longrightarrow> 32 \<le> x \<and> x \<le> 126"
  by (induction s) (auto simp: escape_body_Cons escape_body_Nil dest: enc_printable)

lemma escape_label_printable: "x \<in> set (escape_label s) \<Longrightarrow> 32 \<le> x \<and> x \<le> 126"
  using escape_body_printable [of x s] by (auto simp: escape_label_body)

lemma dec_u:
  assumes "n < 65536" and "\<not> (0xD800 \<le> n \<and> n < 0xDC00)"
  shows "dec_head ([92, 117] @ hex04 n @ r) = Some (n, r)"
proof -
  obtain h1 h2 h3 h4 where h: "hex04 n = [h1, h2, h3, h4]"
    by (simp add: hex04_def)
  with assms(1) have v: "hexval h1 h2 h3 h4 = n" by (rule hexval_hex04)
  show ?thesis
    using assms(2) by (auto simp: dec_head_def h v)
qed

lemma dec_u2:
  assumes "m < 0x100000"
  shows "dec_head ([92, 117] @ hex04 (0xd800 + m div 1024 mod 1024) @
                   [92, 117] @ hex04 (0xdc00 + m mod 1024) @ r) = Some (0x10000 + m, r)"
proof -
  define s1 where "s1 = 0xd800 + m div 1024 mod 1024"
  define s2 where "s2 = 0xdc00 + m mod 1024"
  obtain h1 h2 h3 h4 where h: "hex04 s1 = [h1, h2, h3, h4]"
    by (simp add: hex04_def)
  obtain l1 l2 l3 l4 where l: "hex04 s2 = [l1, l2, l3, l4]"
    by (simp add: hex04_def)
  have b1: "s1 < 65536" and b2: "s2 < 65536" and r1: "0xD800 \<le> s1" "s1 < 0xDC00"
    by (simp_all add: s1_def s2_def)
  have v1: "hexval h1 h2 h3 h4 = s1" using b1 h by (rule hexval_hex04)
  have v2: "hexval l1 l2 l3 l4 = s2" using b2 l by (rule hexval_hex04)
  have d: "dec_head ([92, 117] @ hex04 s1 @ [92, 117] @ hex04 s2 @ r) =
        Some (0x10000 + (s1 - 0xD800) * 1024 + (s2 - 0xDC00), r)"
    using r1 by (simp add: dec_head_def h l v1 v2)
  have q: "m div 1024 mod 1024 = m div 1024" using assms by simp
  have "(s1 - 0xD800) * 1024 + (s2 - 0xDC00) = m"
    by (simp add: s1_def s2_def q)
  with d show ?thesis
    unfolding s1_def s2_def by simp
qed

lemma dec_enc: "scalar_value c \<Longrightarrow> dec_head (enc c @ r) = Some (c, r)"
proof (cases "ESCAPE_ASCII c")
  case False
  then show ?thesis by (simp add: enc_def ESCAPE_ASCII_def dec_head_def)
next
  case True
  assume s: "scalar_value c"
  show ?thesis
  proof (cases "c = 92 \<or> c = 34 \<or> c = 8 \<or> c = 12 \<or> c = 10 \<or> c = 13 \<or> c = 9")
    case True
    then show ?thesis
      by (auto simp: enc_def ESCAPE_ASCII_def replace_def dec_head_def)
  next
    case False
    note short = False
    show ?thesis
    proof (cases "c < 0x10000")
      case True
      with s have "\<not> (0xD800 \<le> c \<and> c < 0xDC00)" by (auto simp: scalar_value_def)
      from dec_u [OF True this, of r] short True \<open>ESCAPE_ASCII c\<close> show ?thesis
        by (simp add: enc_def replace_def)
    next
      case False
      with s have m: "c - 0x10000 < 0x100000" by (auto simp: scalar_value_def)
      from False have c: "0x10000 + (c - 0x10000) = c" by simp
      from dec_u2 [OF m, of r] short False \<open>ESCAPE_ASCII c\<close> show ?thesis
        by (simp add: enc_def replace_def Let_def surrogates c)
    qed
  qed
qed

lemma dec_head_Nil: "dec_head [] = None"
  by (simp add: dec_head_def)

lemma enc_not_empty: "scalar_value d \<Longrightarrow> enc d @ r \<noteq> []"
proof
  assume s: "scalar_value d" and e: "enc d @ r = []"
  have 1: "dec_head (enc d @ r) = Some (d, r)" using s by (rule dec_enc)
  have 2: "dec_head (enc d @ r) = dec_head []" by (simp only: e)
  have "Some (d, r) = None"
    using 1 2 dec_head_Nil by (simp only:)
  then show False by (simp only: option.distinct)
qed

lemma enc_prefix_free:
  assumes "scalar_value c" and "scalar_value d" and "enc c @ r = enc d @ r'"
  shows "c = d \<and> r = r'"
proof -
  have 1: "dec_head (enc c @ r) = Some (c, r)" using assms(1) by (rule dec_enc)
  have 2: "dec_head (enc d @ r') = Some (d, r')" using assms(2) by (rule dec_enc)
  have 3: "dec_head (enc c @ r) = dec_head (enc d @ r')" by (simp only: assms(3))
  have "Some (c, r) = Some (d, r')"
    using 1 2 3 by (simp only:)
  then show ?thesis by (simp only: option.inject prod.inject)
qed

lemma escape_body_inj:
  "list_all scalar_value a \<Longrightarrow> list_all scalar_value b \<Longrightarrow> escape_body a = escape_body b \<Longrightarrow> a = b"
proof (induction a arbitrary: b)
  case Nil
  show ?case
  proof (cases b)
    case Nil
    then show ?thesis by simp
  next
    case (Cons d b')
    from Nil.prems(2) Cons have s: "scalar_value d" by simp
    from Nil.prems(3) have "enc d @ escape_body b' = []"
      unfolding Cons escape_body_Cons escape_body_Nil by (rule sym)
    with enc_not_empty [OF s] show ?thesis by blast
  qed
next
  case (Cons c a')
  from Cons.prems(1) have sc: "scalar_value c" and sa: "list_all scalar_value a'" by simp_all
  show ?case
  proof (cases b)
    case Nil
    from Cons.prems(3) have "enc c @ escape_body a' = []"
      unfolding Nil escape_body_Cons escape_body_Nil .
    with enc_not_empty [OF sc] show ?thesis by blast
  next
    case (Cons d b')
    from Cons.prems(2) Cons have sd: "scalar_value d" and sb: "list_all scalar_value b'" by simp_all
    from Cons.prems(3) have "enc c @ escape_body a' = enc d @ escape_body b'"
      unfolding Cons escape_body_Cons .
    from enc_prefix_free [OF sc sd this] have cd: "c = d" and e: "escape_body a' = escape_body b'"
      by blast+
    from Cons.IH [OF sa sb e] cd show ?thesis
      unfolding Cons by blast
  qed
qed

lemma escape_label_inj:
  assumes "list_all scalar_value a" and "list_all scalar_value b"
    and "escape_label a = escape_label b"
  shows "a = b"
proof -
  from assms(3) have "escape_body a = escape_body b"
    unfolding escape_label_body by simp
  with assms(1,2) show ?thesis by (rule escape_body_inj)
qed

lemma replace_surrogates:
  "replace 0xD83D = [92, 117] @ hex04 0xD83D"
  "replace 0xDE00 = [92, 117] @ hex04 0xDE00"
  "replace 0x1F600 = [92, 117] @ hex04 0xD83D @ [92, 117] @ hex04 0xDE00"
  by (simp_all add: replace_def Let_def surrogates)

lemma escape_surrogates:
  "ESCAPE_ASCII 0xD83D" "ESCAPE_ASCII 0xDE00" "ESCAPE_ASCII 0x1F600"
  by (simp_all add: ESCAPE_ASCII_def)

text \<open>
  C6, as stated, fails in its last part: the string of the two surrogate code points
  \<open>U+D83D U+DE00\<close> and the string of the one code point \<open>U+1F600\<close> have the same escaped
  form, so the name cannot be recovered from it for every string.
\<close>

theorem escape_label_surrogate_pair:
  "escape_label [0xD83D, 0xDE00] = escape_label [0x1F600] \<and> [0xD83D, 0xDE00] \<noteq> [0x1F600 :: nat]"
proof -
  have a: "escape_body [0xD83D, 0xDE00] = [92, 117] @ hex04 0xD83D @ [92, 117] @ hex04 0xDE00"
    by (simp add: escape_body_def escape_surrogates replace_surrogates)
  have b: "escape_body [0x1F600] = [92, 117] @ hex04 0xD83D @ [92, 117] @ hex04 0xDE00"
    by (simp add: escape_body_def escape_surrogates replace_surrogates)
  show ?thesis
    by (simp add: escape_label_body a b)
qed

text \<open>
  C6, amended. For every name, \<open>_escape_label\<close> gives the escaped text between two double
  quotes; read as a quoted string of the output format, followed by anything, it ends at
  its last character and nowhere before, so no quote inside is left unescaped; every
  character of it is printable ASCII. For names of Unicode scalar values (no surrogate
  code points) the escaped form determines the name.
\<close>

theorem escape_label_safe:
  "escape_label s = [34] @ escape_body s @ [34] \<and>
   lex_quoted (escape_body s @ [34] @ rest) = Some (escape_body s, rest) \<and>
   (\<forall>x \<in> set (escape_label s). 32 \<le> x \<and> x \<le> 126) \<and>
   (list_all scalar_value a \<and> list_all scalar_value b \<and> escape_label a = escape_label b
      \<longrightarrow> a = b)"
  using escape_label_body [of s] lex_body [of s rest] escape_label_printable [of _ s]
    escape_label_inj [of a b]
  by blast

text \<open>The name \<open>a"b\<close>, followed in the output by a semicolon.\<close>

theorem escape_label_safe_witness:
  "escape_label [97, 34, 98] = [34] @ [97, 92, 34, 98] @ [34] \<and>
   lex_quoted ([97, 92, 34, 98] @ [34] @ [59]) = Some ([97, 92, 34, 98], [59]) \<and>
   92 \<in> set (escape_label [97, 34, 98]) \<and> (32::nat) \<le> 92 \<and> (92::nat) \<le> 126 \<and>
   list_all scalar_value [97, 34, 98] \<and> escape_label [97, 34, 98] = escape_label [97, 34, 98]"
proof -
  have b: "escape_body [97, 34, 98] = [97, 92, 34, 98]"
    by (simp add: escape_body_def ESCAPE_ASCII_def replace_def)
  have v: "list_all scalar_value [97, 34, 98]"
    by (simp add: scalar_value_def)
  from escape_label_safe [of "[97, 34, 98]" "[59]" "[97, 34, 98]" "[97, 34, 98]"]
  have l: "escape_label [97, 34, 98] = [34] @ [97, 92, 34, 98] @ [34]"
    and r: "lex_quoted ([97, 92, 34, 98] @ [34] @ [59]) = Some ([97, 92, 34, 98], [59])"
    unfolding b by blast+
  have m: "92 \<in> set (escape_label [97, 34, 98])"
    unfolding l by simp
  from l r m v show ?thesis by simp
qed

end
